theory Spec2Isabelle
  imports Complex_Main "HOL-Library.Log_Nat"
begin

section \<open>Strings, runes and the library routines the colour parser calls\<close>

text \<open>
  A Go string is a sequence of bytes, modelled as a \<open>char list\<close>; \<open>len\<close> is the
  number of bytes. The library routines used by the program read such a string rune by
  rune, decoding UTF-8; an ill-formed byte decodes to the replacement rune with width 1.
\<close>

definition byte :: "char \<Rightarrow> int" where
  "byte c = of_char c"

definition RuneError :: int where
  "RuneError = 0xFFFD"

text \<open>\<open>utf8.DecodeRuneInString\<close>: the first rune of a string and its width in bytes.\<close>

fun DecodeRune :: "string \<Rightarrow> int \<times> nat" where
  "DecodeRune [] = (RuneError, 0)"
| "DecodeRune (c0 # cs) =
    (let s0 = byte c0 in
     if s0 < 0x80 then (s0, 1)
     else if s0 < 0xC2 \<or> 0xF4 < s0 then (RuneError, 1)
     else
       let sz = (if s0 < 0xE0 then 2 else if s0 < 0xF0 then 3 else (4::nat));
           lo = (if s0 = 0xE0 then 0xA0 else if s0 = 0xF0 then 0x90 else 0x80);
           hi = (if s0 = 0xED then 0x9F else if s0 = 0xF4 then 0x8F else 0xBF)
       in
         if length (c0 # cs) < sz then (RuneError, 1)
         else
           let s1 = byte (cs ! 0) in
           if s1 < lo \<or> hi < s1 then (RuneError, 1)
           else if sz \<le> 2 then ((s0 mod 32) * 64 + s1 mod 64, 2)
           else
             let s2 = byte (cs ! 1) in
             if s2 < 0x80 \<or> 0xBF < s2 then (RuneError, 1)
             else if sz \<le> 3 then ((s0 mod 16) * 4096 + (s1 mod 64) * 64 + s2 mod 64, 3)
             else
               let s3 = byte (cs ! 2) in
               if s3 < 0x80 \<or> 0xBF < s3 then (RuneError, 1)
               else ((s0 mod 8) * 262144 + (s1 mod 64) * 4096 + (s2 mod 64) * 64
                       + s3 mod 64, 4))"

text \<open>
  \<open>unicode.IsSpace\<close>, which is also the table \<open>isSpace\<close> of package \<open>fmt\<close>: the
  code points with the White_Space property.
\<close>

definition isSpace :: "int \<Rightarrow> bool" where
  "isSpace r \<longleftrightarrow>
     (0x09 \<le> r \<and> r \<le> 0x0D) \<or> r = 0x20 \<or> r = 0x85 \<or> r = 0xA0 \<or> r = 0x1680
     \<or> (0x2000 \<le> r \<and> r \<le> 0x200A) \<or> r = 0x2028 \<or> r = 0x2029 \<or> r = 0x202F
     \<or> r = 0x205F \<or> r = 0x3000"

text \<open>
  The string cut into its runes, each with the bytes that encode it. A byte that starts
  no well-formed encoding is a segment of its own.
\<close>

fun segments :: "string \<Rightarrow> (int \<times> string) list" where
  "segments [] = []"
| "segments (c # cs) =
     (case DecodeRune (c # cs) of
        (r, n) \<Rightarrow> (r, c # take (n - 1) cs) # segments (drop (n - 1) cs))"

text \<open>
  \<open>strings.TrimSpace\<close>: the string without its leading and trailing white-space runes.
  The library scans the tail backwards; a trailing white-space rune is found there exactly
  when it is the last segment of the forward decoding, since no lead byte is ever consumed
  as part of an earlier rune.
\<close>

definition TrimSpace :: "string \<Rightarrow> string" where
  "TrimSpace s =
     concat (map snd
       (rev (dropWhile (\<lambda>p. isSpace (fst p))
          (rev (dropWhile (\<lambda>p. isSpace (fst p)) (segments s))))))"

definition HasPrefix :: "string \<Rightarrow> string \<Rightarrow> bool" where
  "HasPrefix s p \<longleftrightarrow> length p \<le> length s \<and> take (length p) s = p"

subsection \<open>The scanner of \<open>fmt.Sscanf\<close>\<close>

text \<open>
  The program calls \<open>fmt.Sscanf\<close> with the formats \<open>%02x%02x%02x\<close> (three \<open>int\<close>
  operands) and \<open>%1x%1x%1x\<close> (three \<open>byte\<close> operands). The model follows the library's
  scanner for these formats: a state is the number of runes read so far and the input that
  remains; a read fails with EOF at the end of the input and at the width limit of the
  operand being scanned.
\<close>

datatype scan_error =
    UnexpectedEOF | UnexpectedNewline | ExpectedInteger | OutOfRange | IntegerOverflow

type_synonym ss = "int \<times> string"

definition hugeWid :: int where
  "hugeWid = 2 ^ 30"

definition getRune :: "int \<Rightarrow> ss \<Rightarrow> (int \<times> ss) option" where
  "getRune argLimit st =
     (case st of (count, inp) \<Rightarrow>
        if argLimit \<le> count \<or> inp = [] then None
        else case DecodeRune inp of (r, n) \<Rightarrow> Some (r, (count + 1, drop n inp)))"

text \<open>\<open>peek\<close>: is the next rune one of \<open>ok\<close>? The rune is put back.\<close>

definition peek :: "int \<Rightarrow> int list \<Rightarrow> ss \<Rightarrow> bool" where
  "peek argLimit ok st =
     (case getRune argLimit st of None \<Rightarrow> False | Some (r, _) \<Rightarrow> r \<in> set ok)"

lemma DecodeRune_pos: "s \<noteq> [] \<Longrightarrow> 0 < snd (DecodeRune s)"
  by (cases s) (simp_all add: Let_def)

lemma getRune_shorter:
  "getRune argLimit st = Some (r, st') \<Longrightarrow> length (snd st') < length (snd st)"
  using DecodeRune_pos [of "snd st"]
  by (cases st) (auto simp: getRune_def split: if_splits prod.splits)

text \<open>
  \<open>SkipSpace\<close> with \<open>nlIsSpace = false\<close>, as \<open>Sscanf\<close> sets it: white space is skipped, a
  carriage return before a newline is skipped, and a newline is an error.
\<close>

function SkipSpace :: "int \<Rightarrow> ss \<Rightarrow> scan_error + ss" where
  "SkipSpace argLimit st =
     (case getRune argLimit st of
        None \<Rightarrow> Inr st
      | Some (r, st') \<Rightarrow>
          if r = 0x0D \<and> peek argLimit [0x0A] st' then SkipSpace argLimit st'
          else if r = 0x0A then Inl UnexpectedNewline
          else if \<not> isSpace r then Inr st
          else SkipSpace argLimit st')"
  by pat_completeness auto
termination
  by (relation "measure (\<lambda>(argLimit, st). length (snd st))")
     (auto dest: getRune_shorter)

text \<open>\<open>accept\<close>: consume the next rune if it is one of \<open>ok\<close>.\<close>

definition accept :: "int \<Rightarrow> int list \<Rightarrow> ss \<Rightarrow> (int \<times> ss) option" where
  "accept argLimit ok st =
     (case getRune argLimit st of
        None \<Rightarrow> None
      | Some (r, st') \<Rightarrow> if r \<in> set ok then Some (r, st') else None)"

text \<open>The loop \<open>for s.accept(digits) {}\<close> of \<open>scanNumber\<close>, collecting the token.\<close>

function acceptAll :: "int \<Rightarrow> int list \<Rightarrow> ss \<Rightarrow> int list \<times> ss" where
  "acceptAll argLimit ok st =
     (case accept argLimit ok st of
        None \<Rightarrow> ([], st)
      | Some (r, st') \<Rightarrow>
          (case acceptAll argLimit ok st' of (rs, st'') \<Rightarrow> (r # rs, st'')))"
  by pat_completeness auto
termination
  by (relation "measure (\<lambda>(argLimit, ok, st). length (snd st))")
     (auto simp: accept_def dest: getRune_shorter split: option.splits if_splits)

declare SkipSpace.simps [simp del] acceptAll.simps [simp del]

definition hexadecimalDigits :: "int list" where
  "hexadecimalDigits = map byte ''0123456789aAbBcCdDeEfF''"

definition sign :: "int list" where
  "sign = map byte ''+-''"

definition hexval :: "int \<Rightarrow> int" where
  "hexval r = (if r \<le> 0x39 then r - 0x30 else if r \<le> 0x46 then r - 0x37 else r - 0x57)"

text \<open>
  \<open>scanNumber\<close> for base 16: there must be input left and it must start with a digit.
\<close>

definition scanNumber :: "int \<Rightarrow> ss \<Rightarrow> scan_error + (int list \<times> ss)" where
  "scanNumber argLimit st =
     (case getRune argLimit st of
        None \<Rightarrow> Inl UnexpectedEOF
      | Some _ \<Rightarrow>
          (case accept argLimit hexadecimalDigits st of
             None \<Rightarrow> Inl ExpectedInteger
           | Some (r, st') \<Rightarrow>
               (case acceptAll argLimit hexadecimalDigits st' of
                  (rs, st'') \<Rightarrow> Inr (r # rs, st''))))"

text \<open>\<open>strconv.ParseUint\<close> of a token of hexadecimal digits, in 64 bits.\<close>

definition ParseUint16 :: "int list \<Rightarrow> scan_error + int" where
  "ParseUint16 tok =
     (let v = foldl (\<lambda>acc r. acc * 16 + hexval r) 0 tok
      in if 2 ^ 64 \<le> v then Inl OutOfRange else Inr v)"

text \<open>
  \<open>scanInt\<close> for the verb \<open>x\<close> and a 64-bit \<open>int\<close>: an optional sign, which counts
  towards the width, and then the digits.
\<close>

definition scanInt :: "int \<Rightarrow> ss \<Rightarrow> scan_error + (int \<times> ss)" where
  "scanInt argLimit st =
     (case SkipSpace argLimit st of
        Inl e \<Rightarrow> Inl e
      | Inr st1 \<Rightarrow>
          (case getRune argLimit st1 of
             None \<Rightarrow> Inl UnexpectedEOF
           | Some _ \<Rightarrow>
               (case (case accept argLimit sign st1 of
                        None \<Rightarrow> (False, st1)
                      | Some (r, st') \<Rightarrow> (r = 0x2D, st')) of
                  (neg, st2) \<Rightarrow>
                    (case scanNumber argLimit st2 of
                       Inl e \<Rightarrow> Inl e
                     | Inr (tok, st3) \<Rightarrow>
                         (case ParseUint16 tok of
                            Inl e \<Rightarrow> Inl e
                          | Inr v \<Rightarrow>
                              if \<not> neg \<and> 2 ^ 63 \<le> v then Inl OutOfRange
                              else if neg \<and> 2 ^ 63 < v then Inl OutOfRange
                              else Inr (if neg then - v else v, st3))))))"

text \<open>\<open>scanUint\<close> for the verb \<open>x\<close> and a \<open>byte\<close>: no sign, and the value must fit 8 bits.\<close>

definition scanUint8 :: "int \<Rightarrow> ss \<Rightarrow> scan_error + (int \<times> ss)" where
  "scanUint8 argLimit st =
     (case SkipSpace argLimit st of
        Inl e \<Rightarrow> Inl e
      | Inr st1 \<Rightarrow>
          (case getRune argLimit st1 of
             None \<Rightarrow> Inl UnexpectedEOF
           | Some _ \<Rightarrow>
               (case scanNumber argLimit st1 of
                  Inl e \<Rightarrow> Inl e
                | Inr (tok, st3) \<Rightarrow>
                    (case ParseUint16 tok of
                       Inl e \<Rightarrow> Inl e
                     | Inr v \<Rightarrow>
                         if 2 ^ 8 \<le> v then Inl IntegerOverflow
                         else Inr (v, st3)))))"

text \<open>
  \<open>doScanf\<close> for a format of \<open>k\<close> verbs \<open>%<wid>x\<close>: before each operand white space is
  skipped without counting towards the width, then the operand is scanned within
  \<open>wid\<close> runes. The result is the list of the operands assigned before the first error, and
  that error if there is one. Input left over after the last verb is not an error.
\<close>

fun doScanf :: "(int \<Rightarrow> ss \<Rightarrow> scan_error + (int \<times> ss)) \<Rightarrow> int \<Rightarrow> nat \<Rightarrow> ss
    \<Rightarrow> int list \<times> scan_error option" where
  "doScanf scanOne wid 0 st = ([], None)"
| "doScanf scanOne wid (Suc k) st =
     (case SkipSpace hugeWid st of
        Inl e \<Rightarrow> ([], Some e)
      | Inr st1 \<Rightarrow>
          (case scanOne (min hugeWid (fst st1 + wid)) st1 of
             Inl e \<Rightarrow> ([], Some e)
           | Inr (v, st2) \<Rightarrow>
               (case doScanf scanOne wid k st2 of (vs, err) \<Rightarrow> (v # vs, err))))"

definition Sscanf :: "(int \<Rightarrow> ss \<Rightarrow> scan_error + (int \<times> ss)) \<Rightarrow> int \<Rightarrow> nat \<Rightarrow> string
    \<Rightarrow> int list \<times> scan_error option" where
  "Sscanf scanOne wid k str = doScanf scanOne wid k (0, str)"

text \<open>An operand keeps its zero value when the scan stopped before assigning it.\<close>

definition operand :: "int list \<Rightarrow> nat \<Rightarrow> int" where
  "operand vs i = (if i < length vs then vs ! i else 0)"

subsection \<open>Formatting with \<open>%02x\<close>\<close>

definition ldigits :: "nat \<Rightarrow> char" where
  "ldigits d = ''0123456789abcdef'' ! d"

fun hexdigits :: "nat \<Rightarrow> string" where
  "hexdigits n = (if n < 16 then [ldigits n] else hexdigits (n div 16) @ [ldigits (n mod 16)])"

declare hexdigits.simps [simp del]

text \<open>
  \<open>fmt.Sprintf("%02x", n)\<close> for an \<open>int\<close>: lower-case digits, padded with zeros to two
  places; a negative number is a minus sign and its magnitude padded to one place.
\<close>

definition fmt02x :: "int \<Rightarrow> string" where
  "fmt02x n =
     (if n < 0 then CHR ''-'' # hexdigits (nat (- n))
      else let ds = hexdigits (nat n) in replicate (2 - length ds) CHR ''0'' @ ds)"


section \<open>64-bit floating point\<close>

text \<open>
  A finite \<open>float64\<close> is modelled by the rational number it denotes. An arithmetic
  operation of the program is the exact operation followed by \<open>f64\<close>, the rounding to the
  nearest \<open>float64\<close> with ties to the even significand: 53 significant bits, and below
  \<open>2^-1022\<close> the fixed spacing \<open>2^-1074\<close> of the subnormal numbers. Each operation is
  rounded on its own. Infinities and NaN are not modelled: every division of the program is
  guarded against a zero divisor, and its values stay far below the overflow threshold.
\<close>

type_synonym float64 = rat

text \<open>\<open>ilog2 x\<close> is the exponent \<open>e\<close> with \<open>2^e \<le> |x| < 2^(e+1)\<close>, for \<open>x \<noteq> 0\<close>.\<close>

definition ilog2 :: "rat \<Rightarrow> int" where
  "ilog2 x =
     (case quotient_of \<bar>x\<bar> of
        (p, q) \<Rightarrow>
          let k = bitlen p - bitlen q
          in if 2 powi k \<le> \<bar>x\<bar> then k else k - 1)"

definition roundEven :: "rat \<Rightarrow> int" where
  "roundEven q =
     (let f = \<lfloor>q\<rfloor>; d = q - of_int f
      in if d < 1 / 2 then f
         else if 1 / 2 < d then f + 1
         else if even f then f else f + 1)"

text \<open>The exponent of the spacing between the \<open>float64\<close> numbers around \<open>x\<close>.\<close>

definition ulpExp :: "rat \<Rightarrow> int" where
  "ulpExp x = max (ilog2 x - 52) (- 1074)"

definition f64 :: "rat \<Rightarrow> float64" where
  "f64 x = (if x = 0 then 0 else of_int (roundEven (x / 2 powi ulpExp x)) * 2 powi ulpExp x)"

definition f64_add :: "float64 \<Rightarrow> float64 \<Rightarrow> float64" where
  "f64_add x y = f64 (x + y)"

definition f64_sub :: "float64 \<Rightarrow> float64 \<Rightarrow> float64" where
  "f64_sub x y = f64 (x - y)"

definition f64_mul :: "float64 \<Rightarrow> float64 \<Rightarrow> float64" where
  "f64_mul x y = f64 (x * y)"

definition f64_div :: "float64 \<Rightarrow> float64 \<Rightarrow> float64" where
  "f64_div x y = f64 (x / y)"

text \<open>The conversion \<open>float64(n)\<close> of an integer.\<close>

definition toFloat64 :: "int \<Rightarrow> float64" where
  "toFloat64 n = f64 (of_int n)"

text \<open>The conversion \<open>int(x)\<close> of a \<open>float64\<close>: the fraction is discarded.\<close>

definition toInt :: "float64 \<Rightarrow> int" where
  "toInt x = (if 0 \<le> x then \<lfloor>x\<rfloor> else \<lceil>x\<rceil>)"

text \<open>
  \<open>math.Mod(x, y)\<close> for finite \<open>x\<close> and \<open>y \<noteq> 0\<close>: the remainder of the division truncated
  towards zero. It has the sign of \<open>x\<close>, and it is exact.
\<close>

definition Mod :: "float64 \<Rightarrow> float64 \<Rightarrow> float64" where
  "Mod x y = x - y * of_int (toInt (x / y))"


section \<open>The colour model\<close>

record colorRGB =
  R :: int
  G :: int
  B :: int

definition Hex :: "colorRGB \<Rightarrow> string" where
  "Hex c = CHR ''#'' # fmt02x (R c) @ fmt02x (G c) @ fmt02x (B c)"

definition lerp :: "colorRGB \<Rightarrow> colorRGB \<Rightarrow> float64 \<Rightarrow> colorRGB" where
  "lerp a b t =
     \<lparr>R = toInt (f64_add (toFloat64 (R a))
                 (f64_mul (f64_sub (toFloat64 (R b)) (toFloat64 (R a))) t)),
      G = toInt (f64_add (toFloat64 (G a))
                 (f64_mul (f64_sub (toFloat64 (G b)) (toFloat64 (G a))) t)),
      B = toInt (f64_add (toFloat64 (B a))
                 (f64_mul (f64_sub (toFloat64 (B b)) (toFloat64 (B a))) t))\<rparr>"

definition parseHexColor :: "string \<Rightarrow> colorRGB \<times> bool" where
  "parseHexColor s0 =
     (let s = TrimSpace s0 in
      if \<not> HasPrefix s ''#'' then (\<lparr>R = 0, G = 0, B = 0\<rparr>, False)
      else
        let s = drop 1 s in
        if length s = 6 then
          (case Sscanf scanInt 2 3 s of
             (vs, err) \<Rightarrow>
               (\<lparr>R = operand vs 0, G = operand vs 1, B = operand vs 2\<rparr>, err = None))
        else if length s = 3 then
          (case Sscanf scanUint8 1 3 s of
             (vs, err) \<Rightarrow>
               (\<lparr>R = operand vs 0 * 17, G = operand vs 1 * 17, B = operand vs 2 * 17\<rparr>,
                err = None))
        else (\<lparr>R = 0, G = 0, B = 0\<rparr>, False))"

definition clamp01 :: "float64 \<Rightarrow> float64" where
  "clamp01 x = max 0 (min 1 x)"

text \<open>
  \<open>rgbToHsv\<close> returns hue, saturation and value. The \<open>switch maxv\<close> of the source compares
  \<open>maxv\<close> with \<open>r\<close>, \<open>g\<close> and \<open>b\<close> in this order and takes the first that is equal.
\<close>

definition rgbToHsv :: "colorRGB \<Rightarrow> float64 \<times> float64 \<times> float64" where
  "rgbToHsv c =
     (let r = f64_div (toFloat64 (R c)) 255;
          g = f64_div (toFloat64 (G c)) 255;
          b = f64_div (toFloat64 (B c)) 255;
          maxv = max r (max g b);
          minv = min r (min g b);
          d = f64_sub maxv minv;
          v = maxv
      in if maxv = 0 then (0, 0, 0)
         else
           let s = (if maxv \<noteq> 0 then f64_div d maxv else 0);
               h = (if d = 0 then 0
                    else
                      f64_mul
                        (if maxv = r then
                           (let h = f64_div (f64_sub g b) d
                            in if g < b then f64_add h 6 else h)
                         else if maxv = g then f64_add (f64_div (f64_sub b r) d) 2
                         else if maxv = b then f64_add (f64_div (f64_sub r g) d) 4
                         else 0)
                        60)
           in (h, s, v))"

definition hsvToRgb :: "float64 \<Rightarrow> float64 \<Rightarrow> float64 \<Rightarrow> colorRGB" where
  "hsvToRgb h0 s v =
     (let h1 = Mod h0 360;
          h = (if h1 < 0 then f64_add h1 360 else h1);
          c = f64_mul v s;
          x = f64_mul c (f64_sub 1 \<bar>f64_sub (Mod (f64_div h 60) 2) 1\<bar>);
          m = f64_sub v c;
          rgb1 = (if h < 60 then (c, x, 0)
                  else if h < 120 then (x, c, 0)
                  else if h < 180 then (0, c, x)
                  else if h < 240 then (0, x, c)
                  else if h < 300 then (x, 0, c)
                  else (c, 0, x))
      in case rgb1 of
           (r1, g1, b1) \<Rightarrow>
             \<lparr>R = toInt (f64_mul (f64_add r1 m) 255),
              G = toInt (f64_mul (f64_add g1 m) 255),
              B = toInt (f64_mul (f64_add b1 m) 255)\<rparr>)"

definition rotateHue :: "colorRGB \<Rightarrow> float64 \<Rightarrow> colorRGB" where
  "rotateHue c delta =
     (case rgbToHsv c of (h, s, v) \<Rightarrow> hsvToRgb (f64_add h delta) s v)"


section \<open>The session state\<close>

text \<open>
  The render mode is an integer type in the source, with the constants \<open>modeBlock = 0\<close>,
  \<open>modeGlyph = 1\<close>, \<open>modeLight = 2\<close> and \<open>modeDots = 3\<close>.
\<close>

definition modeBlock :: int where "modeBlock = 0"
definition modeGlyph :: int where "modeGlyph = 1"
definition modeLight :: int where "modeLight = 2"
definition modeDots :: int where "modeDots = 3"

text \<open>The names of the modes; the labels carry the UTF-8 bytes of their sample glyph.\<close>

definition modeNames :: "string list" where
  "modeNames =
     [''BLOCK '' @ [CHR 0xE2, CHR 0x96, CHR 0x88], ''GLYPH'',
      ''LIGHT '' @ [CHR 0xE2, CHR 0x96, CHR 0x93], ''DOTS '' @ [CHR 0xC2, CHR 0xB7]]"

text \<open>
  The text-entry widget belongs to a library. The program reads its value, gives and takes
  the focus, and hands every unbound message to the widget's own \<open>Update\<close>, which is a
  parameter \<open>upd\<close> of the transition function below.
\<close>

record textinput =
  Value :: string
  focused :: bool

definition Focus :: "textinput \<Rightarrow> textinput" where
  "Focus ti = ti\<lparr>focused := True\<rparr>"

definition Blur :: "textinput \<Rightarrow> textinput" where
  "Blur ti = ti\<lparr>focused := False\<rparr>"

definition newTextInput :: "string \<Rightarrow> string \<Rightarrow> textinput" where
  "newTextInput placeholder val = \<lparr>Value = val, focused = False\<rparr>"

text \<open>Messages of the event loop; a key message is modelled by its \<open>String()\<close>.\<close>

datatype msg = WindowSizeMsg int int | KeyMsg string | tickMsg | otherMsg

text \<open>
  Commands handed back to the event loop: none, quit, one tick after the given interval,
  a batch, and the commands of the text-entry widgets, which the program passes on unread.
\<close>

datatype cmd = NoCmd | Quit | tickEvery int | Batch "cmd list" | WidgetCmd nat

record model =
  w :: int
  h :: int
  inputs :: "textinput list"
  focusIndex :: int
  fonts :: "string list"
  fontIndex :: int
  artLines :: "string list"
  maxWidth :: int
  baseStart :: colorRGB
  baseEnd :: colorRGB
  mode :: int
  animate :: bool
  hueShift :: float64
  stepDeg :: float64
  interval :: int

definition figFonts :: "string list" where
  "figFonts =
   [
    ''standard'', ''big'', ''doom'', ''slant'', ''shadow'', ''block'', ''banner'',
    ''larry3d'', ''speed'', ''smslant'', ''small'', ''isometric1'', ''3-d'', ''3x5'',
    ''5lineoblique'', ''acrobatic'', ''alligator'', ''alligator2'', ''alphabet'',
    ''avatar'', ''banner3-D'', ''banner3'', ''banner4'', ''barbwire'', ''basic'', ''bell'',
    ''bigchief'', ''binary'', ''bubble'', ''bulbhead'', ''calgphy2'', ''caligraphy'',
    ''catwalk'', ''chunky'', ''coinstak'', ''colossal'', ''computer'', ''contessa'',
    ''contrast'', ''cosmic'', ''cosmike'', ''cricket'', ''cursive'', ''cyberlarge'',
    ''cybermedium'', ''cybersmall'', ''diamond'', ''digital'', ''doh'', ''dotmatrix'',
    ''drpepper'', ''eftichess'', ''eftifont'', ''eftipiti'', ''eftirobot'', ''eftitalic'',
    ''eftiwall'', ''eftiwater'', ''epic'', ''fender'', ''fourtops'', ''fuzzy'', ''goofy'',
    ''gothic'', ''graffiti'', ''hollywood'', ''invita'', ''isometric2'', ''isometric3'',
    ''isometric4'', ''italic'', ''ivrit'', ''jazmine'', ''jerusalem'', ''katakana'',
    ''kban'', ''lcd'', ''lean'', ''letters'', ''linux'', ''lockergnome'', ''madrid'',
    ''marquee'', ''maxfour'', ''mike'', ''mini'', ''mirror'', ''mnemonic'', ''morse'',
    ''moscow'', ''nancyj-fancy'', ''nancyj-underlined'', ''nancyj'', ''nipples'',
    ''ntgreek'', ''o8'', ''ogre'', ''pawp'', ''peaks'', ''pebbles'', ''pepper'',
    ''poison'', ''puffy'', ''pyramid'', ''rectangles'', ''relief'', ''relief2'', ''rev'',
    ''roman'', ''rot13'', ''rounded'', ''rowancap'', ''rozzo'', ''runic'', ''runyc'',
    ''sblood'', ''script'', ''serifcap'', ''short'', ''slide'', ''slscript'', ''smisome1'',
    ''smkeyboard'', ''smscript'', ''smshadow'', ''smtengwar'', ''stampatello'',
    ''starwars'', ''stellar'', ''stop'', ''straight'', ''tanja'', ''tengwar'', ''term'',
    ''thick'', ''thin'', ''threepoint'', ''ticks'', ''ticksslant'', ''tinker-toy'',
    ''tombstone'', ''trek'', ''tsalagi'', ''twopoint'', ''univers'', ''usaflag'', ''wavy'',
    ''weird''
   ]"

section \<open>The banner grid builder\<close>

text \<open>\<open>strings.TrimRight(s, "\n")\<close>: the string without its trailing newline bytes.\<close>

definition TrimRightNewline :: "string \<Rightarrow> string" where
  "TrimRightNewline s = rev (dropWhile (\<lambda>c. c = CHR 0x0A) (rev s))"

text \<open>
  \<open>strings.Split(s, "\n")\<close>: the pieces between the newline bytes; there is always at least
  one piece, and the only piece of the empty string is the empty string.
\<close>

fun SplitNewline :: "string \<Rightarrow> string list" where
  "SplitNewline [] = [[]]"
| "SplitNewline (c # cs) =
     (if c = CHR 0x0A then [] # SplitNewline cs
      else case SplitNewline cs of
             [] \<Rightarrow> [[c]]
           | l # ls \<Rightarrow> (c # l) # ls)"

text \<open>The loop of \<open>rebuildArt\<close> that finds the greatest byte length of a line.\<close>

fun maxLen :: "int \<Rightarrow> string list \<Rightarrow> int" where
  "maxLen maxW [] = maxW"
| "maxLen maxW (l # ls) = maxLen (if int (length l) > maxW then int (length l) else maxW) ls"

text \<open>
  The glyph generator belongs to a library: \<open>fig txt font\<close> stands for
  \<open>figure.NewFigure(txt, font, true).String()\<close>, the multi-line banner of the text in the
  named font, on the inputs that the generator accepts. Indexing a slice out of its range
  is a run-time panic, the result \<open>None\<close>.
\<close>

definition rebuildArt :: "(string \<Rightarrow> string \<Rightarrow> string) \<Rightarrow> model \<Rightarrow> model option" where
  "rebuildArt fig m =
     (if length (inputs m) < 1 then None
      else if fontIndex m < 0 \<or> int (length (fonts m)) \<le> fontIndex m then None
      else
        let txt = Value (inputs m ! 0);
            font = fonts m ! nat (fontIndex m);
            lines = SplitNewline (TrimRightNewline (fig txt font));
            maxW = maxLen 0 lines
        in Some (m\<lparr>artLines := lines, maxWidth := maxW\<rparr>))"

definition newModel :: "(string \<Rightarrow> string \<Rightarrow> string) \<Rightarrow> model option" where
  "newModel fig =
     (let m = \<lparr>w = 0, h = 0, inputs = [], focusIndex = 0,
               fonts = figFonts, fontIndex = 0,
               artLines = [], maxWidth = 0,
               baseStart = \<lparr>R = 138, G = 43, B = 226\<rparr>,
               baseEnd = \<lparr>R = 0, G = 255, B = 255\<rparr>,
               mode = modeGlyph,
               animate = True,
               hueShift = 0,
               stepDeg = 3,
               interval = 60 * 1000000\<rparr>;
          m = m\<lparr>inputs := [newTextInput ''text'' ''glam dm'',
                            newTextInput ''start hex'' ''#8A2BE2'',
                            newTextInput ''end hex'' ''#00FFFF'']\<rparr>;
          m = m\<lparr>inputs := (inputs m)[0 := Focus (inputs m ! 0)]\<rparr>
      in rebuildArt fig m)"

section \<open>The transition function\<close>

text \<open>The remainder \<open>%\<close> of Go's integer division, which truncates towards zero.\<close>

definition rem :: "int \<Rightarrow> int \<Rightarrow> int" where
  "rem a b = sgn a * (\<bar>a\<bar> mod \<bar>b\<bar>)"

text \<open>The loop that gives the focus to the field at \<open>focusIndex\<close> and takes it from the rest.\<close>

fun focusLoop :: "int \<Rightarrow> int \<Rightarrow> textinput list \<Rightarrow> textinput list" where
  "focusLoop fi i [] = []"
| "focusLoop fi i (ti # tis) = (if i = fi then Focus ti else Blur ti) # focusLoop fi (i + 1) tis"

text \<open>
  The tail of \<open>Update\<close>, reached by every message that no binding has returned from: each
  field is updated by the widget, the banner is rebuilt, and each colour field that parses
  replaces its base colour.
\<close>

definition liveApply ::
  "(string \<Rightarrow> string \<Rightarrow> string) \<Rightarrow> (msg \<Rightarrow> textinput \<Rightarrow> textinput \<times> cmd) \<Rightarrow> msg \<Rightarrow> model
     \<Rightarrow> (model \<times> cmd) option" where
  "liveApply fig upd ms m =
     (let cmds = map (\<lambda>ti. snd (upd ms ti)) (inputs m);
          m = m\<lparr>inputs := map (\<lambda>ti. fst (upd ms ti)) (inputs m)\<rparr>
      in case rebuildArt fig m of
           None \<Rightarrow> None
         | Some m \<Rightarrow>
             if length (inputs m) < 3 then None
             else
               let m = (case parseHexColor (Value (inputs m ! 1)) of
                          (c, ok) \<Rightarrow> if ok then m\<lparr>baseStart := c\<rparr> else m);
                   m = (case parseHexColor (Value (inputs m ! 2)) of
                          (c, ok) \<Rightarrow> if ok then m\<lparr>baseEnd := c\<rparr> else m)
               in Some (m, Batch cmds))"

definition Update ::
  "(string \<Rightarrow> string \<Rightarrow> string) \<Rightarrow> (msg \<Rightarrow> textinput \<Rightarrow> textinput \<times> cmd) \<Rightarrow> msg \<Rightarrow> model
     \<Rightarrow> (model \<times> cmd) option" where
  "Update fig upd ms m =
     (case ms of
        WindowSizeMsg width height \<Rightarrow> Some (m\<lparr>w := width, h := height\<rparr>, NoCmd)
      | KeyMsg k \<Rightarrow>
          if k = ''q'' \<or> k = ''esc'' \<or> k = ''ctrl+c'' then Some (m, Quit)
          else if k = ''tab'' \<or> k = ''shift+tab'' then
            (let fi = (if k = ''shift+tab'' then focusIndex m - 1 else focusIndex m + 1);
                 fi = (if fi < 0 then int (length (inputs m)) - 1 else fi);
                 fi = (if fi \<ge> int (length (inputs m)) then 0 else fi)
             in Some (m\<lparr>focusIndex := fi, inputs := focusLoop fi 0 (inputs m)\<rparr>, NoCmd))
          else if k = ''left'' \<or> k = ''['' then
            (if length (fonts m) = 0 then None
             else
               case rebuildArt fig
                      (m\<lparr>fontIndex := rem (fontIndex m - 1 + int (length (fonts m)))
                                          (int (length (fonts m)))\<rparr>) of
                 None \<Rightarrow> None
               | Some m \<Rightarrow> Some (m, NoCmd))
          else if k = ''right'' \<or> k = '']'' then
            (if length (fonts m) = 0 then None
             else
               case rebuildArt fig
                      (m\<lparr>fontIndex := rem (fontIndex m + 1) (int (length (fonts m)))\<rparr>) of
                 None \<Rightarrow> None
               | Some m \<Rightarrow> Some (m, NoCmd))
          else if k = ''m'' then
            Some (m\<lparr>mode := rem (mode m + 1) (int (length modeNames))\<rparr>, NoCmd)
          else if k = ''a'' then
            (let m = m\<lparr>animate := \<not> animate m\<rparr>
             in if animate m then Some (m, tickEvery (interval m)) else Some (m, NoCmd))
          else if k = ''+'' \<or> k = ''='' then
            Some (m\<lparr>stepDeg := min 30 (f64_add (stepDeg m) (1 / 2))\<rparr>, NoCmd)
          else if k = ''-'' \<or> k = ''_'' then
            Some (m\<lparr>stepDeg := max (1 / 2) (f64_sub (stepDeg m) (1 / 2))\<rparr>, NoCmd)
          else liveApply fig upd ms m
      | tickMsg \<Rightarrow>
          if animate m then
            Some (m\<lparr>hueShift := Mod (f64_add (hueShift m) (stepDeg m)) 360\<rparr>,
                  tickEvery (interval m))
          else Some (m, NoCmd)
      | otherMsg \<Rightarrow> liveApply fig upd ms m)"

text \<open>\<open>Init\<close>: the first tick is scheduled when the animation is on.\<close>

definition Init :: "model \<Rightarrow> cmd" where
  "Init m = (if animate m then tickEvery (interval m) else NoCmd)"

section \<open>The frame compositor\<close>

text \<open>
  A cell of the frame is a plain byte, or a rune rendered in a foreground colour that is
  given by its hexadecimal name. \<open>View\<close> hands the rows to the layout library together
  with the controls panel; the model keeps the rows and, of the panel, the slice indexing
  that can panic.
\<close>

datatype cell = Plain char | Styled string int

datatype frame = Loading | Rows "cell list list"

text \<open>The inner loop of \<open>View\<close> over the columns \<open>x\<close> of one line.\<close>

function columns ::
  "int \<Rightarrow> int \<Rightarrow> colorRGB \<Rightarrow> colorRGB \<Rightarrow> string \<Rightarrow> int \<Rightarrow> cell list option" where
  "columns maxW md effStart effEnd line x =
     (if x < maxW then
        (if x < 0 \<or> int (length line) \<le> x then None
         else
           let ch = line ! nat x in
           if ch = CHR '' '' then
             map_option (\<lambda>cells. Plain CHR '' '' # cells)
               (columns maxW md effStart effEnd line (x + 1))
           else
             let t = (if maxW > 1 then f64_div (toFloat64 x) (toFloat64 (maxW - 1)) else 0);
                 c = lerp effStart effEnd t;
                 out = (if md = modeBlock then [Styled (Hex c) 0x2588]
                        else if md = modeLight then [Styled (Hex c) 0x2593]
                        else if md = modeDots then [Styled (Hex c) 0xB7]
                        else if md = modeGlyph then [Styled (Hex c) (byte ch)]
                        else [])
             in map_option (\<lambda>cells. out @ cells)
                  (columns maxW md effStart effEnd line (x + 1)))
      else Some [])"
  by pat_completeness auto
termination
  by (relation "measure (\<lambda>(maxW, md, effStart, effEnd, line, x). nat (maxW - x))") auto

declare columns.simps [simp del]

text \<open>
  One pass of the outer loop: a line shorter than \<open>maxWidth\<close> is padded with spaces to that
  length, and then its columns are rendered.
\<close>

definition pad :: "int \<Rightarrow> string \<Rightarrow> string" where
  "pad maxW line =
     (if int (length line) < maxW
      then line @ replicate (nat (maxW - int (length line))) CHR '' ''
      else line)"

definition row :: "int \<Rightarrow> int \<Rightarrow> colorRGB \<Rightarrow> colorRGB \<Rightarrow> string \<Rightarrow> cell list option" where
  "row maxW md effStart effEnd line = columns maxW md effStart effEnd (pad maxW line) 0"

fun rows :: "int \<Rightarrow> int \<Rightarrow> colorRGB \<Rightarrow> colorRGB \<Rightarrow> string list \<Rightarrow> cell list list option" where
  "rows maxW md effStart effEnd [] = Some []"
| "rows maxW md effStart effEnd (line # ls) =
     (case row maxW md effStart effEnd line of
        None \<Rightarrow> None
      | Some r \<Rightarrow> map_option (\<lambda>rs. r # rs) (rows maxW md effStart effEnd ls))"

definition View :: "model \<Rightarrow> frame option" where
  "View m =
     (if w m = 0 \<or> h m = 0 then Some Loading
      else
        let effStart = (if animate m then rotateHue (baseStart m) (hueShift m) else baseStart m);
            effEnd = (if animate m then rotateHue (baseEnd m) (hueShift m) else baseEnd m)
        in if length (inputs m) < 3 then None
           else if fontIndex m < 0 \<or> int (length (fonts m)) \<le> fontIndex m then None
           else if mode m < 0 \<or> int (length modeNames) \<le> mode m then None
           else map_option Rows (rows (maxWidth m) (mode m) effStart effEnd (artLines m)))"

section \<open>Runs of the program\<close>

text \<open>The states that the event loop reaches from the initial state.\<close>

inductive reachable ::
  "(string \<Rightarrow> string \<Rightarrow> string) \<Rightarrow> (msg \<Rightarrow> textinput \<Rightarrow> textinput \<times> cmd) \<Rightarrow> model \<Rightarrow> bool"
  for fig upd where
    init: "newModel fig = Some m \<Longrightarrow> reachable fig upd m"
  | step: "reachable fig upd m \<Longrightarrow> Update fig upd ms m = Some (m', c) \<Longrightarrow> reachable fig upd m'"

text \<open>\<open>n\<close> consecutive tick messages.\<close>

fun ticks ::
  "(string \<Rightarrow> string \<Rightarrow> string) \<Rightarrow> (msg \<Rightarrow> textinput \<Rightarrow> textinput \<times> cmd) \<Rightarrow> nat \<Rightarrow> model
     \<Rightarrow> model option" where
  "ticks fig upd 0 m = Some m"
| "ticks fig upd (Suc n) m =
     (case Update fig upd tickMsg m of
        None \<Rightarrow> None
      | Some (m', c) \<Rightarrow> ticks fig upd n m')"


section \<open>Predicates and reference definitions used in the statements\<close>

text \<open>A lower-case hexadecimal digit.\<close>

definition hexch :: "char \<Rightarrow> bool" where
  "hexch c \<longleftrightarrow> c \<in> set ''0123456789abcdef''"

text \<open>A colour whose components are all in the range from 0 to 255.\<close>

definition valid :: "colorRGB \<Rightarrow> bool" where
  "valid c \<longleftrightarrow> 0 \<le> R c \<and> R c \<le> 255 \<and> 0 \<le> G c \<and> G c \<le> 255 \<and> 0 \<le> B c \<and> B c \<le> 255"

text \<open>The indices of a state are within the slices they index.\<close>

definition indicesOK :: "model \<Rightarrow> bool" where
  "indicesOK m \<longleftrightarrow>
     length (inputs m) = 3 \<and>
     0 \<le> fontIndex m \<and> fontIndex m < int (length (fonts m)) \<and>
     0 \<le> mode m \<and> mode m < 4 \<and>
     0 \<le> focusIndex m \<and> focusIndex m < 3"

text \<open>A multiple of one half.\<close>

definition halfInt :: "rat \<Rightarrow> bool" where
  "halfInt x \<longleftrightarrow> of_int \<lfloor>2 * x\<rfloor> = 2 * x"

text \<open>The animation phase and speed are within their ranges, and multiples of one half.\<close>

definition phaseOK :: "model \<Rightarrow> bool" where
  "phaseOK m \<longleftrightarrow>
     0 \<le> hueShift m \<and> hueShift m < 360 \<and> halfInt (hueShift m) \<and>
     1 / 2 \<le> stepDeg m \<and> stepDeg m \<le> 30 \<and> halfInt (stepDeg m)"

text \<open>
  The compositor as the specification words it: the effective endpoint colours, the
  gradient position and colour of a column, and the glyph of a render mode.
\<close>

definition effective :: "model \<Rightarrow> colorRGB \<Rightarrow> colorRGB" where
  "effective m base = (if animate m then rotateHue base (hueShift m) else base)"

definition position :: "int \<Rightarrow> int \<Rightarrow> float64" where
  "position maxW x = (if maxW \<le> 1 then 0 else f64_div (toFloat64 x) (toFloat64 (maxW - 1)))"

definition cellColor :: "model \<Rightarrow> int \<Rightarrow> colorRGB" where
  "cellColor m x =
     lerp (effective m (baseStart m)) (effective m (baseEnd m)) (position (maxWidth m) x)"

definition glyph :: "int \<Rightarrow> char \<Rightarrow> int" where
  "glyph md ch =
     (if md = modeBlock then 0x2588
      else if md = modeLight then 0x2593
      else if md = modeDots then 0xB7
      else byte ch)"

definition specCell :: "model \<Rightarrow> string \<Rightarrow> int \<Rightarrow> cell" where
  "specCell m line x =
     (let ch = pad (maxWidth m) line ! nat x
      in if ch = CHR '' '' then Plain CHR '' ''
         else Styled (Hex (cellColor m x)) (glyph (mode m) ch))"

text \<open>A glyph generator whose banner has rows of different lengths, and a small state.\<close>

definition raggedFigure :: "string \<Rightarrow> string \<Rightarrow> string" where
  "raggedFigure txt font = [CHR ''a'', CHR ''b'', CHR 0x0A, CHR ''c'', CHR 0x0A]"

definition sampleModel :: model where
  "sampleModel =
     \<lparr>w = 80, h = 24,
      inputs = [Focus (newTextInput ''text'' ''hi''), newTextInput ''start hex'' ''#8A2BE2'',
                newTextInput ''end hex'' ''#00FFFF''],
      focusIndex = 0,
      fonts = [''standard'', ''big''], fontIndex = 0,
      artLines = [], maxWidth = 0,
      baseStart = \<lparr>R = 138, G = 43, B = 226\<rparr>,
      baseEnd = \<lparr>R = 0, G = 255, B = 255\<rparr>,
      mode = modeGlyph, animate = True, hueShift = 0, stepDeg = 3,
      interval = 60 * 1000000\<rparr>"

text \<open>A widget that replaces the text of the focused field by the text of a key message.\<close>

definition typeOver :: "msg \<Rightarrow> textinput \<Rightarrow> textinput \<times> cmd" where
  "typeOver ms ti =
     (case ms of
        KeyMsg k \<Rightarrow> if focused ti then (ti\<lparr>Value := k\<rparr>, NoCmd) else (ti, NoCmd)
      | _ \<Rightarrow> (ti, NoCmd))"


section \<open>Hexadecimal colour names\<close>

subsection \<open>Scanning lower-case hexadecimal digits\<close>

lemma hexch_facts:
  assumes "hexch c"
  shows "byte c < 0x80" "0 \<le> byte c" "byte c \<in> set hexadecimalDigits" "\<not> isSpace (byte c)"
    "byte c \<noteq> 0x0D" "byte c \<noteq> 0x0A" "byte c \<notin> set sign"
    "0 \<le> hexval (byte c)" "hexval (byte c) \<le> 15"
  using assms
  by (auto simp: hexch_def byte_def hexadecimalDigits_def isSpace_def sign_def hexval_def)

lemma below_16:
  "(d::nat) < 16 \<Longrightarrow> d = 0 \<or> d = 1 \<or> d = 2 \<or> d = 3 \<or> d = 4 \<or> d = 5 \<or> d = 6 \<or> d = 7
     \<or> d = 8 \<or> d = 9 \<or> d = 10 \<or> d = 11 \<or> d = 12 \<or> d = 13 \<or> d = 14 \<or> d = 15"
  by arith

lemma ldigits_hexch: "d < 16 \<Longrightarrow> hexch (ldigits d)"
  by (drule below_16) (auto simp: ldigits_def hexch_def)

lemma hexval_ldigits: "d < 16 \<Longrightarrow> hexval (byte (ldigits d)) = int d"
  by (drule below_16) (auto simp: ldigits_def hexval_def byte_def)

lemma DecodeRune_ascii: "byte c < 0x80 \<Longrightarrow> DecodeRune (c # cs) = (byte c, 1)"
  by simp

lemma getRune_ascii:
  "count < argLimit \<Longrightarrow> byte c < 0x80 \<Longrightarrow>
   getRune argLimit (count, c # cs) = Some (byte c, (count + 1, cs))"
  by (simp add: getRune_def)

lemma getRune_limit: "argLimit \<le> count \<Longrightarrow> getRune argLimit (count, inp) = None"
  by (simp add: getRune_def)

lemma SkipSpace_hexch:
  "hexch c \<Longrightarrow> count < argLimit \<Longrightarrow>
   SkipSpace argLimit (count, c # cs) = Inr (count, c # cs)"
  by (subst SkipSpace.simps) (simp add: getRune_ascii hexch_facts)

lemma acceptAll_limit:
  "argLimit \<le> count \<Longrightarrow> acceptAll argLimit ok (count, inp) = ([], (count, inp))"
  by (subst acceptAll.simps) (simp add: accept_def getRune_limit)

lemma scanNumber_two:
  assumes "hexch a" "hexch b"
  shows "scanNumber (count + 2) (count, a # b # cs) = Inr ([byte a, byte b], (count + 2, cs))"
proof -
  have "acceptAll (count + 2) hexadecimalDigits (count + 1, b # cs)
          = ([byte b], (count + 2, cs))"
    using assms
    by (subst acceptAll.simps)
       (simp add: accept_def getRune_ascii getRune_limit hexch_facts acceptAll_limit)
  then show ?thesis
    using assms by (simp add: scanNumber_def accept_def getRune_ascii hexch_facts)
qed

lemma scanInt_two:
  assumes "hexch a" "hexch b"
  shows "scanInt (count + 2) (count, a # b # cs)
           = Inr (hexval (byte a) * 16 + hexval (byte b), (count + 2, cs))"
proof -
  have "hexval (byte a) * 16 + hexval (byte b) < 256"
    using hexch_facts(9) [OF assms(1)] hexch_facts(9) [OF assms(2)] by linarith
  then show ?thesis
    using assms
    by (simp add: scanInt_def SkipSpace_hexch getRune_ascii hexch_facts accept_def
        scanNumber_two ParseUint16_def)
qed

lemma Sscanf_six:
  assumes "hexch a" "hexch b" "hexch c" "hexch d" "hexch e" "hexch f"
  shows "Sscanf scanInt 2 3 [a, b, c, d, e, f]
           = ([hexval (byte a) * 16 + hexval (byte b),
               hexval (byte c) * 16 + hexval (byte d),
               hexval (byte e) * 16 + hexval (byte f)], None)"
proof -
  have three: "(3::nat) = Suc (Suc (Suc 0))" by simp
  have s0: "scanInt 2 (0, [a, b, c, d, e, f])
              = Inr (hexval (byte a) * 16 + hexval (byte b), (2, [c, d, e, f]))"
    using scanInt_two [OF assms(1,2), of 0] by simp
  have s1: "scanInt 4 (2, [c, d, e, f])
              = Inr (hexval (byte c) * 16 + hexval (byte d), (4, [e, f]))"
    using scanInt_two [OF assms(3,4), of 2] by simp
  have s2: "scanInt 6 (4, [e, f]) = Inr (hexval (byte e) * 16 + hexval (byte f), (6, []))"
    using scanInt_two [OF assms(5,6), of 4] by simp
  show ?thesis
    unfolding Sscanf_def three
    using assms by (simp add: SkipSpace_hexch hugeWid_def s0 s1 s2)
qed

subsection \<open>Trimming a string without white space at its ends\<close>

lemma segments_ascii:
  "\<forall>c \<in> set s. byte c < 0x80 \<Longrightarrow> segments s = map (\<lambda>c. (byte c, [c])) s"
  by (induction s) simp_all

lemma TrimSpace_ascii_id:
  assumes "\<forall>c \<in> set s. byte c < 0x80" "s \<noteq> []"
    "\<not> isSpace (byte (hd s))" "\<not> isSpace (byte (last s))"
  shows "TrimSpace s = s"
proof -
  let ?g = "map (\<lambda>c. (byte c, [c])) s"
  have front: "dropWhile (\<lambda>p. isSpace (fst p)) ?g = ?g"
    using assms(2,3) by (cases s) simp_all
  have rear: "dropWhile (\<lambda>p. isSpace (fst p)) (rev ?g) = rev ?g"
    using assms(2,4) by (cases s rule: rev_cases) simp_all
  have "concat (map snd ?g) = s"
    by (induction s) simp_all
  then show ?thesis
    by (simp add: TrimSpace_def segments_ascii [OF assms(1)] front rear)
qed

subsection \<open>Formatting a component\<close>

lemma fmt02x_byte:
  assumes "0 \<le> n" "n \<le> 255"
  shows "fmt02x n = [ldigits (nat n div 16), ldigits (nat n mod 16)]"
proof (cases "nat n < 16")
  case True
  then show ?thesis
    using assms by (simp add: fmt02x_def hexdigits.simps [of "nat n"] ldigits_def)
next
  case False
  moreover have "nat n div 16 < 16" using assms by simp
  ultimately show ?thesis
    using assms
    by (simp add: fmt02x_def hexdigits.simps [of "nat n"] hexdigits.simps [of "nat n div 16"])
qed

lemma Hex_digits:
  assumes "valid c"
  shows "Hex c = CHR ''#'' # [ldigits (nat (R c) div 16), ldigits (nat (R c) mod 16),
                              ldigits (nat (G c) div 16), ldigits (nat (G c) mod 16),
                              ldigits (nat (B c) div 16), ldigits (nat (B c) mod 16)]"
  using assms by (simp add: Hex_def fmt02x_byte valid_def)

lemma Hex_parse:
  assumes "valid c"
  shows "parseHexColor (Hex c) = (c, True)"
proof -
  define r1 r2 g1 g2 b1 b2 where
    "r1 = nat (R c) div 16" and "r2 = nat (R c) mod 16" and
    "g1 = nat (G c) div 16" and "g2 = nat (G c) mod 16" and
    "b1 = nat (B c) div 16" and "b2 = nat (B c) mod 16"
  note defs = r1_def r2_def g1_def g2_def b1_def b2_def
  have rng: "0 \<le> R c" "R c \<le> 255" "0 \<le> G c" "G c \<le> 255" "0 \<le> B c" "B c \<le> 255"
    using assms by (simp_all add: valid_def)
  have lt: "r1 < 16" "r2 < 16" "g1 < 16" "g2 < 16" "b1 < 16" "b2 < 16"
    using rng by (simp_all add: defs)
  note hx = lt [THEN ldigits_hexch]
  let ?s = "CHR ''#'' # [ldigits r1, ldigits r2, ldigits g1, ldigits g2, ldigits b1, ldigits b2]"
  have hex: "Hex c = ?s"
    using Hex_digits [OF assms] by (simp add: defs)
  have trim: "TrimSpace (Hex c) = Hex c"
    unfolding hex
  proof (rule TrimSpace_ascii_id)
    have "byte CHR ''#'' < 0x80" "\<not> isSpace (byte CHR ''#'')"
      by (simp_all add: byte_def isSpace_def)
    then show "\<forall>c\<in>set ?s. byte c < 0x80" "\<not> isSpace (byte (hd ?s))"
      using hx by (simp_all add: hexch_facts(1))
    show "\<not> isSpace (byte (last ?s))"
      using hx by (simp add: hexch_facts(4))
  qed simp
  have vals: "int r1 * 16 + int r2 = R c" "int g1 * 16 + int g2 = G c"
    "int b1 * 16 + int b2 = B c"
    using rng by (simp_all add: defs zdiv_int zmod_int)
  have "parseHexColor (Hex c)
          = (\<lparr>R = int r1 * 16 + int r2, G = int g1 * 16 + int g2, B = int b1 * 16 + int b2\<rparr>,
             True)"
    unfolding parseHexColor_def trim
    unfolding hex
    by (simp add: HasPrefix_def Sscanf_six [OF hx] operand_def hexval_ldigits lt)
  then show ?thesis by (simp add: vals)
qed

text \<open>
  Claim C7. For every colour \<open>c\<close> whose components are in the range from 0 to 255, \<open>Hex c\<close>
  is a \<open>#\<close> followed by six lower-case hexadecimal digits, two for each component with a
  leading zero where needed, and \<open>parseHexColor\<close> accepts that string and returns \<open>c\<close>.
\<close>

theorem Hex_roundtrip:
  assumes "valid c"
  shows "length (Hex c) = 7 \<and> hd (Hex c) = CHR ''#'' \<and> (\<forall>ch \<in> set (tl (Hex c)). hexch ch)
         \<and> parseHexColor (Hex c) = (c, True)"
proof -
  have rng: "0 \<le> R c" "R c \<le> 255" "0 \<le> G c" "G c \<le> 255" "0 \<le> B c" "B c \<le> 255"
    using assms by (simp_all add: valid_def)
  have "nat (R c) div 16 < 16" "nat (R c) mod 16 < 16" "nat (G c) div 16 < 16"
    "nat (G c) mod 16 < 16" "nat (B c) div 16 < 16" "nat (B c) mod 16 < 16"
    using rng by simp_all
  then have "\<forall>ch \<in> set (tl (Hex c)). hexch ch"
    by (simp add: Hex_digits [OF assms] ldigits_hexch)
  then show ?thesis
    by (simp add: Hex_parse [OF assms]) (simp add: Hex_digits [OF assms])
qed

theorem Hex_roundtrip_witness:
  "valid \<lparr>R = 138, G = 43, B = 226\<rparr>
   \<and> length (Hex \<lparr>R = 138, G = 43, B = 226\<rparr>) = 7
   \<and> parseHexColor (Hex \<lparr>R = 138, G = 43, B = 226\<rparr>) = (\<lparr>R = 138, G = 43, B = 226\<rparr>, True)"
  using Hex_roundtrip [of "\<lparr>R = 138, G = 43, B = 226\<rparr>"] by (simp add: valid_def)

subsection \<open>What the parser accepts\<close>

text \<open>
  The forms that the parser is meant to accept and to reject: the short form doubles each
  digit, the digits may be upper-case, white space around the name is ignored, and a name
  without \<open>#\<close>, of another length, or starting with a character that is no digit is
  rejected.
\<close>

lemma parseHexColor_examples:
  "parseHexColor ''#abc'' = parseHexColor ''#aabbcc''"
  "parseHexColor ''  #8A2BE2 '' = (\<lparr>R = 138, G = 43, B = 226\<rparr>, True)"
  "\<not> snd (parseHexColor ''abc'')"
  "\<not> snd (parseHexColor ''#ab'')"
  "\<not> snd (parseHexColor ''#abcd'')"
  "\<not> snd (parseHexColor ''#xyz123'')"
  by code_simp+

text \<open>
  Claim C1. The parser is to reject every name that is not \<open>#\<close> followed by exactly three
  or exactly six hexadecimal digits. It does not: the scanner stops an operand at the first
  character that is no digit and does not look at what is left after the third operand, and
  it takes a sign as part of an operand. So \<open>#12345g\<close> is accepted as the colour
  \<open>(18, 52, 5)\<close>, and \<open>#-1-2-3\<close> is accepted with the negative components \<open>(-1, -2, -3)\<close>.
\<close>

theorem parseHexColor_accepts_malformed:
  "parseHexColor ''#12345g'' = (\<lparr>R = 18, G = 52, B = 5\<rparr>, True)
   \<and> parseHexColor ''#-1-2-3'' = (\<lparr>R = - 1, G = - 2, B = - 3\<rparr>, True)"
  by code_simp


section \<open>Properties of the rounding\<close>

lemma ilog2_le:
  assumes "x \<noteq> 0"
  shows "2 powi ilog2 x \<le> \<bar>x\<bar>"
proof -
  obtain p q where pq: "quotient_of \<bar>x\<bar> = (p, q)" by force
  have q: "0 < q" using quotient_of_denom_pos [OF pq] .
  have x: "\<bar>x\<bar> = of_int p / of_int q" using quotient_of_div [OF pq] .
  have p: "0 < p"
  proof -
    have "0 < \<bar>x\<bar>" using assms by simp
    then show ?thesis using q by (simp add: x zero_less_divide_iff)
  qed
  let ?k = "bitlen p - bitlen q"
  show ?thesis
  proof (cases "2 powi ?k \<le> \<bar>x\<bar>")
    case True
    then show ?thesis by (simp add: ilog2_def pq)
  next
    case False
    have bp: "(2::rat) powi (bitlen p - 1) \<le> of_int p"
    proof -
      have "bitlen p - 1 \<ge> 0" using p by (simp add: bitlen_alt_def)
      moreover have "(2::int) ^ nat (bitlen p - 1) \<le> p" using bitlen_bounds [OF p] by simp
      then have "(of_int ((2::int) ^ nat (bitlen p - 1)) :: rat) \<le> of_int p"
        by (rule of_int_le_iff [THEN iffD2])
      ultimately show ?thesis by (simp add: power_int_nonneg_exp)
    qed
    have bq: "of_int q < (2::rat) powi bitlen q"
    proof -
      have "q < (2::int) ^ nat (bitlen q)" using bitlen_bounds [OF q] by simp
      then have "(of_int q :: rat) < of_int ((2::int) ^ nat (bitlen q))"
        by (rule of_int_less_iff [THEN iffD2])
      then show ?thesis by (simp add: power_int_nonneg_exp bitlen_nonneg)
    qed
    have "(2::rat) powi (?k - 1) = 2 powi (bitlen p - 1) / 2 powi bitlen q"
      by (simp add: power_int_diff)
    also have "\<dots> \<le> of_int p / 2 powi bitlen q"
      using bp by (simp add: divide_right_mono)
    also have "\<dots> \<le> of_int p / of_int q"
      using bq p q by (simp add: frac_le)
    finally have "(2::rat) powi (?k - 1) \<le> \<bar>x\<bar>" by (simp add: x)
    moreover have "ilog2 x = ?k - 1" using False by (simp add: ilog2_def pq)
    ultimately show ?thesis by simp
  qed
qed

lemma ilog2_gt:
  assumes "x \<noteq> 0"
  shows "\<bar>x\<bar> < 2 powi (ilog2 x + 1)"
proof -
  obtain p q where pq: "quotient_of \<bar>x\<bar> = (p, q)" by force
  have q: "0 < q" using quotient_of_denom_pos [OF pq] .
  have x: "\<bar>x\<bar> = of_int p / of_int q" using quotient_of_div [OF pq] .
  have p: "0 < p"
  proof -
    have "0 < \<bar>x\<bar>" using assms by simp
    then show ?thesis using q by (simp add: x zero_less_divide_iff)
  qed
  let ?k = "bitlen p - bitlen q"
  show ?thesis
  proof (cases "2 powi ?k \<le> \<bar>x\<bar>")
    case False
    then show ?thesis by (simp add: ilog2_def pq)
  next
    case True
    have bq: "(2::rat) powi (bitlen q - 1) \<le> of_int q"
    proof -
      have "bitlen q - 1 \<ge> 0" using q by (simp add: bitlen_alt_def)
      moreover have "(2::int) ^ nat (bitlen q - 1) \<le> q" using bitlen_bounds [OF q] by simp
      then have "(of_int ((2::int) ^ nat (bitlen q - 1)) :: rat) \<le> of_int q"
        by (rule of_int_le_iff [THEN iffD2])
      ultimately show ?thesis by (simp add: power_int_nonneg_exp)
    qed
    have bp: "of_int p < (2::rat) powi bitlen p"
    proof -
      have "p < (2::int) ^ nat (bitlen p)" using bitlen_bounds [OF p] by simp
      then have "(of_int p :: rat) < of_int ((2::int) ^ nat (bitlen p))"
        by (rule of_int_less_iff [THEN iffD2])
      then show ?thesis by (simp add: power_int_nonneg_exp bitlen_nonneg)
    qed
    have "of_int p / of_int q < (2::rat) powi bitlen p / of_int q"
      using bp q by (simp add: divide_strict_right_mono)
    also have "\<dots> \<le> 2 powi bitlen p / 2 powi (bitlen q - 1)"
      using bq by (simp add: frac_le)
    also have "\<dots> = 2 powi (?k + 1)"
      by (simp add: power_int_diff power_int_add)
    finally have "\<bar>x\<bar> < (2::rat) powi (?k + 1)" by (simp add: x)
    moreover have "ilog2 x = ?k" using True by (simp add: ilog2_def pq)
    ultimately show ?thesis by simp
  qed
qed

lemma roundEven_err: "\<bar>of_int (roundEven q) - q\<bar> \<le> 1 / 2"
proof -
  have "of_int \<lfloor>q\<rfloor> \<le> q" "q < of_int \<lfloor>q\<rfloor> + 1" by linarith+
  then show ?thesis by (auto simp: roundEven_def Let_def)
qed

lemma roundEven_of_int: "roundEven (of_int n) = n"
  by (simp add: roundEven_def)

lemma roundEven_nonneg: "0 \<le> q \<Longrightarrow> 0 \<le> roundEven q"
  by (auto simp: roundEven_def Let_def)

lemma ulpExp_le:
  assumes "x \<noteq> 0" "\<bar>x\<bar> < 2 powi (k + 53)" "- 1074 \<le> k"
  shows "ulpExp x \<le> k"
proof -
  have "(2::rat) powi ilog2 x < 2 powi (k + 53)"
    using ilog2_le [OF assms(1)] assms(2) by linarith
  have "ilog2 x < k + 53"
  proof (rule ccontr)
    assume "\<not> ilog2 x < k + 53"
    then have "(2::rat) powi (k + 53) \<le> 2 powi ilog2 x"
      by (intro power_int_increasing) simp_all
    with \<open>(2::rat) powi ilog2 x < 2 powi (k + 53)\<close> show False by simp
  qed
  then show ?thesis using assms(3) by (simp add: ulpExp_def)
qed

lemma f64_err: "\<bar>f64 x - x\<bar> \<le> 2 powi ulpExp x / 2"
proof (cases "x = 0")
  case True
  then show ?thesis by (simp add: f64_def)
next
  case False
  let ?u = "(2::rat) powi ulpExp x"
  have u: "0 < ?u" by simp
  have "f64 x - x = (of_int (roundEven (x / ?u)) - x / ?u) * ?u"
    using False u by (simp add: f64_def field_simps)
  then have "\<bar>f64 x - x\<bar> = \<bar>of_int (roundEven (x / ?u)) - x / ?u\<bar> * ?u"
    using u by (simp add: abs_mult)
  also have "\<dots> \<le> 1 / 2 * ?u"
    using roundEven_err [of "x / ?u"] u by (intro mult_right_mono) simp_all
  finally show ?thesis by simp
qed

lemma f64_exact:
  assumes "x = of_int m * 2 powi k" "\<bar>m\<bar> < 2 ^ 53" "- 1074 \<le> k"
  shows "f64 x = x"
proof (cases "x = 0")
  case True
  then show ?thesis by (simp add: f64_def)
next
  case False
  have "\<bar>x\<bar> = of_int \<bar>m\<bar> * 2 powi k"
    by (simp add: assms(1) abs_mult)
  also have "\<dots> < 2 ^ 53 * 2 powi k"
  proof -
    have "(of_int \<bar>m\<bar> :: rat) < of_int (2 ^ 53)"
      using assms(2) by (rule of_int_less_iff [THEN iffD2])
    then show ?thesis by (simp add: mult_strict_right_mono)
  qed
  also have "\<dots> = 2 powi (k + 53)"
    by (simp add: power_int_add)
  finally have le: "ulpExp x \<le> k"
    using ulpExp_le [OF False _ assms(3)] by simp
  define u where "u = ulpExp x"
  define j where "j = nat (k - u)"
  have k: "k = u + int j" using le by (simp add: j_def u_def)
  have xk: "x = of_int (m * 2 ^ j) * 2 powi u"
    by (simp add: assms(1) k power_int_add)
  have "x / 2 powi u = of_int (m * 2 ^ j)"
    by (simp add: xk)
  then have "of_int (roundEven (x / 2 powi u)) * 2 powi u = x"
    by (simp only: roundEven_of_int xk [symmetric])
  then show ?thesis
    using False by (simp add: f64_def u_def)
qed

lemma f64_nonneg: "0 \<le> x \<Longrightarrow> 0 \<le> f64 x"
  by (simp add: f64_def roundEven_nonneg)

lemma f64_of_int: "\<bar>n\<bar> < 2 ^ 53 \<Longrightarrow> f64 (of_int n) = of_int n"
  by (rule f64_exact [of _ n 0]) simp_all

lemma f64_close:
  assumes "\<bar>x\<bar> \<le> 1024"
  shows "\<bar>f64 x - x\<bar> \<le> 1 / 2 ^ 43"
proof (cases "x = 0")
  case True
  then show ?thesis by (simp add: f64_def)
next
  case False
  have "(2::rat) powi ilog2 x \<le> 2 powi 10"
    using ilog2_le [OF False] assms by simp
  have "ilog2 x \<le> 10"
  proof (rule ccontr)
    assume "\<not> ilog2 x \<le> 10"
    then have "11 \<le> ilog2 x" by simp
    then have "(2::rat) powi 11 \<le> 2 powi ilog2 x"
      by (intro power_int_increasing) simp_all
    with \<open>(2::rat) powi ilog2 x \<le> 2 powi 10\<close> show False by simp
  qed
  then have "ulpExp x \<le> - 42" by (simp add: ulpExp_def)
  then have "(2::rat) powi ulpExp x \<le> 2 powi (- 42)"
    by (intro power_int_increasing) simp_all
  then have "(2::rat) powi ulpExp x / 2 \<le> 1 / 2 ^ 43"
    by (simp add: power_int_minus field_simps)
  with f64_err [of x] show ?thesis by linarith
qed

text \<open>Rounding does not cross an integer: the integers of moderate size are \<open>float64\<close> numbers.\<close>

lemma roundEven_ge: "of_int n \<le> q \<Longrightarrow> n \<le> roundEven q"
proof -
  assume "of_int n \<le> q"
  then have "n \<le> \<lfloor>q\<rfloor>" by (simp add: le_floor_iff)
  then show ?thesis by (auto simp: roundEven_def Let_def)
qed

lemma roundEven_le: "q \<le> of_int n \<Longrightarrow> roundEven q \<le> n"
proof -
  assume q: "q \<le> of_int n"
  show ?thesis
  proof (cases "q = of_int n")
    case True
    then show ?thesis by (simp add: roundEven_of_int)
  next
    case False
    with q have "q < of_int n" by simp
    then have "\<lfloor>q\<rfloor> < n" by (simp add: floor_less_iff)
    then show ?thesis by (auto simp: roundEven_def Let_def)
  qed
qed

lemma ulpExp_nonpos:
  assumes "x \<noteq> 0" "\<bar>x\<bar> < 2 ^ 53"
  shows "ulpExp x \<le> 0"
  using ulpExp_le [OF assms(1), of 0] assms(2) by simp

lemma f64_int_ge:
  assumes "of_int n \<le> x" "\<bar>x\<bar> < 2 ^ 53"
  shows "of_int n \<le> f64 x"
proof (cases "x = 0")
  case True
  then show ?thesis using assms by (simp add: f64_def)
next
  case False
  define u where "u = ulpExp x"
  define j where "j = nat (- u)"
  have u: "u = - int j" using ulpExp_nonpos [OF False assms(2)] by (simp add: j_def u_def)
  have pw: "(2::rat) powi u = 1 / 2 ^ j" by (simp add: u power_int_minus field_simps)
  have "of_int (n * 2 ^ j) \<le> x / 2 powi u"
    using assms(1) by (simp add: pw mult_right_mono)
  then have "n * 2 ^ j \<le> roundEven (x / 2 powi u)" by (rule roundEven_ge)
  then have "(of_int (n * 2 ^ j) :: rat) \<le> of_int (roundEven (x / 2 powi u))"
    by (simp only: of_int_le_iff)
  then have "(of_int (n * 2 ^ j) :: rat) * (1 / 2 ^ j) \<le> of_int (roundEven (x / 2 powi u)) * (1 / 2 ^ j)"
    by (intro mult_right_mono) simp_all
  then show ?thesis
    using False by (simp add: f64_def u_def [symmetric] pw)
qed

lemma f64_int_le:
  assumes "x \<le> of_int n" "\<bar>x\<bar> < 2 ^ 53"
  shows "f64 x \<le> of_int n"
proof (cases "x = 0")
  case True
  then show ?thesis using assms by (simp add: f64_def)
next
  case False
  define u where "u = ulpExp x"
  define j where "j = nat (- u)"
  have u: "u = - int j" using ulpExp_nonpos [OF False assms(2)] by (simp add: j_def u_def)
  have pw: "(2::rat) powi u = 1 / 2 ^ j" by (simp add: u power_int_minus field_simps)
  have "x / 2 powi u \<le> of_int (n * 2 ^ j)"
    using assms(1) by (simp add: pw mult_right_mono)
  then have "roundEven (x / 2 powi u) \<le> n * 2 ^ j" by (rule roundEven_le)
  then have "(of_int (roundEven (x / 2 powi u)) :: rat) \<le> of_int (n * 2 ^ j)"
    by (simp only: of_int_le_iff)
  then have "(of_int (roundEven (x / 2 powi u)) :: rat) * (1 / 2 ^ j) \<le> of_int (n * 2 ^ j) * (1 / 2 ^ j)"
    by (intro mult_right_mono) simp_all
  then show ?thesis
    using False by (simp add: f64_def u_def [symmetric] pw)
qed

lemma f64_half_int:
  assumes "\<bar>n\<bar> < 2 ^ 53"
  shows "f64 (of_int n / 2) = of_int n / 2"
  by (rule f64_exact [of _ n "- 1"]) (use assms in \<open>simp_all add: power_int_minus\<close>)

lemma f64_zero [simp]: "f64 0 = 0"
  by (simp add: f64_def)

lemma toFloat64_exact: "\<bar>n\<bar> < 2 ^ 53 \<Longrightarrow> toFloat64 n = of_int n"
  by (simp add: toFloat64_def f64_of_int)

lemma toInt_of_int [simp]: "toInt (of_int n) = n"
  by (simp add: toInt_def)

lemma toInt_range:
  assumes "- 1 < x" "x < of_int n + 1" "0 \<le> n"
  shows "0 \<le> toInt x \<and> toInt x \<le> n"
proof (cases "0 \<le> x")
  case True
  then have "0 \<le> \<lfloor>x\<rfloor>" by simp
  moreover have "x < of_int (n + 1)" using assms(2) by simp
  then have "\<lfloor>x\<rfloor> < n + 1" by (simp only: floor_less_iff)
  ultimately show ?thesis using True by (simp add: toInt_def)
next
  case False
  then have "\<lceil>x\<rceil> = 0" using assms(1) by (simp add: ceiling_eq_iff)
  then show ?thesis using False assms(3) by (simp add: toInt_def)
qed

text \<open>The remainder of a number that is not negative, by a positive divisor.\<close>

lemma Mod_nonneg:
  assumes "0 \<le> x" "0 < y"
  shows "Mod x y = x - y * of_int \<lfloor>x / y\<rfloor>" "0 \<le> Mod x y" "Mod x y < y"
proof -
  have q: "0 \<le> x / y" using assms by simp
  then show eq: "Mod x y = x - y * of_int \<lfloor>x / y\<rfloor>" by (simp add: Mod_def toInt_def)
  have xy: "x / y * y = x" using assms(2) by simp
  have "of_int \<lfloor>x / y\<rfloor> * y \<le> x / y * y"
    by (rule mult_right_mono [OF of_int_floor_le]) (use assms(2) in simp)
  then have "of_int \<lfloor>x / y\<rfloor> * y \<le> x" by (simp only: xy)
  then show "0 \<le> Mod x y" by (simp add: eq mult.commute)
  have "x / y < of_int \<lfloor>x / y\<rfloor> + 1" by linarith
  then have "x / y * y < (of_int \<lfloor>x / y\<rfloor> + 1) * y"
    by (rule mult_strict_right_mono) (use assms(2) in simp)
  then have "x < (of_int \<lfloor>x / y\<rfloor> + 1) * y" by (simp only: xy)
  then show "Mod x y < y" by (simp add: eq algebra_simps)
qed

lemma Mod_bounds:
  assumes "0 < y"
  shows "- y < Mod x y" "Mod x y < y"
proof -
  have "- y < Mod x y \<and> Mod x y < y"
  proof (cases "0 \<le> x")
    case True
    from Mod_nonneg(2,3) [OF True assms] show ?thesis using assms by linarith
  next
    case False
    then have neg: "x / y < 0" using assms by (simp add: divide_neg_pos)
    have eq: "Mod x y = x - y * of_int \<lceil>x / y\<rceil>"
      using neg by (simp add: Mod_def toInt_def)
    have xy: "x / y * y = x" using assms by simp
    have "x / y * y \<le> of_int \<lceil>x / y\<rceil> * y"
      by (rule mult_right_mono [OF le_of_int_ceiling]) (use assms in simp)
    then have a: "x \<le> of_int \<lceil>x / y\<rceil> * y" by (simp only: xy)
    have "of_int \<lceil>x / y\<rceil> - 1 < x / y" by linarith
    then have "(of_int \<lceil>x / y\<rceil> - 1) * y < x / y * y"
      by (rule mult_strict_right_mono) (use assms in simp)
    then have b: "(of_int \<lceil>x / y\<rceil> - 1) * y < x" by (simp only: xy)
    from a b show ?thesis by (simp add: eq algebra_simps)
  qed
  then show "- y < Mod x y" "Mod x y < y" by simp_all
qed


section \<open>Interpolation\<close>

text \<open>
  One channel of \<open>lerp\<close>: the computed \<open>float64\<close> lies between the two endpoint values, and
  it differs from the exact value of the expression by the rounding of one product and one
  sum.
\<close>

lemma channel_bounds:
  fixes a b :: int and t :: rat
  assumes "0 \<le> a" "a \<le> 255" "0 \<le> b" "b \<le> 255" "0 \<le> t" "t \<le> 1"
  defines "v \<equiv> f64_add (toFloat64 a) (f64_mul (f64_sub (toFloat64 b) (toFloat64 a)) t)"
  defines "ex \<equiv> of_int a + (of_int b - of_int a) * t"
  shows "of_int (min a b) \<le> v" "v \<le> of_int (max a b)" "\<bar>v - ex\<bar> \<le> 1 / 2 ^ 42"
proof -
  define p where "p = f64 (of_int (b - a) * t)"
  have fa: "toFloat64 a = of_int a" and fb: "toFloat64 b = of_int b"
    using assms(1-4) by (simp_all add: toFloat64_exact)
  have fs: "f64_sub (of_int b) (of_int a) = of_int (b - a)"
    using assms(1-4) f64_of_int [of "b - a"] by (simp add: f64_sub_def)
  have v: "v = f64 (of_int a + p)"
    by (simp add: v_def fa fb fs f64_add_def f64_mul_def p_def)
  have prod_abs: "\<bar>of_int (b - a) * t\<bar> \<le> 255"
  proof -
    have "\<bar>of_int (b - a) * t\<bar> = \<bar>of_int (b - a) :: rat\<bar> * t"
      using assms(5) by (simp add: abs_mult)
    also have "\<dots> \<le> \<bar>of_int (b - a)\<bar> * 1"
      by (rule mult_left_mono) (use assms(6) in simp_all)
    also have "\<dots> \<le> 255"
    proof -
      have "\<bar>b - a\<bar> \<le> 255" using assms(1-4) by simp
      then have "(of_int \<bar>b - a\<bar> :: rat) \<le> of_int 255" by (simp only: of_int_le_iff)
      then show ?thesis by simp
    qed
    finally show ?thesis .
  qed
  have p_err: "\<bar>p - of_int (b - a) * t\<bar> \<le> 1 / 2 ^ 43"
    unfolding p_def by (rule f64_close) (use prod_abs in simp)
  have p_between: "of_int (min 0 (b - a)) \<le> p \<and> p \<le> of_int (max 0 (b - a))"
  proof (cases "a \<le> b")
    case True
    then have d: "(0::rat) \<le> of_int (b - a)" by simp
    have lo: "of_int 0 \<le> of_int (b - a) * t"
      using d assms(5) by simp
    have "of_int (b - a) * t \<le> of_int (b - a) * 1"
      by (rule mult_left_mono) (use d assms(6) in simp_all)
    then have hi: "of_int (b - a) * t \<le> of_int (b - a)" by simp
    have "of_int 0 \<le> p" unfolding p_def
      by (rule f64_int_ge [OF lo]) (use prod_abs in simp)
    moreover have "p \<le> of_int (b - a)" unfolding p_def
      by (rule f64_int_le [OF hi]) (use prod_abs in simp)
    ultimately show ?thesis using True by (simp add: min_def max_def)
  next
    case False
    then have d: "of_int (b - a) \<le> (0::rat)" by simp
    have hi: "of_int (b - a) * t \<le> of_int 0"
      using d assms(5) by (simp add: mult_nonpos_nonneg)
    have "of_int (b - a) * 1 \<le> of_int (b - a) * t"
      by (rule mult_left_mono_neg) (use d assms(6) in simp_all)
    then have lo: "of_int (b - a) \<le> of_int (b - a) * t" by simp
    have "p \<le> of_int 0" unfolding p_def
      by (rule f64_int_le [OF hi]) (use prod_abs in simp)
    moreover have "of_int (b - a) \<le> p" unfolding p_def
      by (rule f64_int_ge [OF lo]) (use prod_abs in simp)
    ultimately show ?thesis using False by (simp add: min_def max_def)
  qed
  have sum_lo: "of_int (min a b) \<le> of_int a + p"
    using p_between by (simp add: min_def split: if_splits)
  have sum_hi: "of_int a + p \<le> of_int (max a b)"
    using p_between by (simp add: max_def split: if_splits)
  have lo0: "(0::rat) \<le> of_int (min a b)" using assms(1,3) by simp
  have hi255: "(of_int (max a b) :: rat) \<le> 255"
  proof -
    have "max a b \<le> 255" using assms(2,4) by simp
    then have "(of_int (max a b) :: rat) \<le> of_int 255" by (simp only: of_int_le_iff)
    then show ?thesis by simp
  qed
  have sum_abs: "\<bar>of_int a + p\<bar> \<le> 255"
    using sum_lo sum_hi lo0 hi255 by linarith
  show "of_int (min a b) \<le> v" unfolding v
    by (rule f64_int_ge [OF sum_lo]) (use sum_abs in simp)
  show "v \<le> of_int (max a b)" unfolding v
    by (rule f64_int_le [OF sum_hi]) (use sum_abs in simp)
  define e where "e = (1::rat) / 2 ^ 43"
  have "\<bar>v - (of_int a + p)\<bar> \<le> 1 / 2 ^ 43"
    unfolding v by (rule f64_close) (use sum_abs in simp)
  then have v_err: "\<bar>v - (of_int a + p)\<bar> \<le> e" by (simp only: e_def)
  have p_err': "\<bar>p - of_int (b - a) * t\<bar> \<le> e" using p_err by (simp only: e_def)
  have ex: "ex = of_int a + of_int (b - a) * t" by (simp add: ex_def)
  have "\<bar>v - ex\<bar> \<le> 2 * e" unfolding ex using v_err p_err' by linarith
  moreover have "2 * e = 1 / 2 ^ 42" by (simp add: e_def)
  ultimately show "\<bar>v - ex\<bar> \<le> 1 / 2 ^ 42" by simp
qed

lemma channel_toInt:
  fixes a b :: int and t :: rat
  assumes "0 \<le> a" "a \<le> 255" "0 \<le> b" "b \<le> 255" "0 \<le> t" "t \<le> 1"
  defines "r \<equiv> toInt (f64_add (toFloat64 a) (f64_mul (f64_sub (toFloat64 b) (toFloat64 a)) t))"
  defines "ex \<equiv> of_int a + (of_int b - of_int a) * t"
  shows "min a b \<le> r" "r \<le> max a b" "\<lfloor>ex - 1 / 2 ^ 42\<rfloor> \<le> r" "r \<le> \<lfloor>ex + 1 / 2 ^ 42\<rfloor>"
    "0 \<le> r" "r \<le> 255"
proof -
  define v where "v = f64_add (toFloat64 a) (f64_mul (f64_sub (toFloat64 b) (toFloat64 a)) t)"
  note cb = channel_bounds [OF assms(1-6), folded v_def ex_def]
  have "(0::rat) \<le> of_int (min a b)" using assms(1,3) by simp
  with cb(1) have v0: "0 \<le> v" by linarith
  then have r: "r = \<lfloor>v\<rfloor>" by (simp add: r_def v_def toInt_def)
  from cb(1) show lo: "min a b \<le> r" unfolding r by (simp add: le_floor_iff)
  from cb(2) have "\<lfloor>v\<rfloor> \<le> \<lfloor>of_int (max a b) :: rat\<rfloor>" by (rule floor_mono)
  then show hi: "r \<le> max a b" unfolding r by simp
  from lo assms(1,3) show "0 \<le> r" by simp
  from hi assms(2,4) show "r \<le> 255" by simp
  from cb(3) have "ex - 1 / 2 ^ 42 \<le> v" "v \<le> ex + 1 / 2 ^ 42" by linarith+
  then show "\<lfloor>ex - 1 / 2 ^ 42\<rfloor> \<le> r" "r \<le> \<lfloor>ex + 1 / 2 ^ 42\<rfloor>"
    unfolding r by (simp_all add: floor_mono)
qed






section \<open>Hue rotation stays within the colour range\<close>

text \<open>
  The error of one rounding of a number of moderate size, and some small numbers compared.
\<close>

lemma f64_near:
  assumes "\<bar>x\<bar> \<le> 1024"
  shows "x - 1 / 2 ^ 43 \<le> f64 x" "f64 x \<le> x + 1 / 2 ^ 43"
  using f64_close [OF assms] by linarith+

lemma f64_unit:
  assumes "0 \<le> x" "x \<le> 1"
  shows "0 \<le> f64 x" "f64 x \<le> 1"
proof -
  have "\<bar>x\<bar> < 2 ^ 53" using assms by simp
  then show "0 \<le> f64 x" "f64 x \<le> 1"
    using f64_int_ge [of 0 x] f64_int_le [of x 1] assms by simp_all
qed

text \<open>The last step of \<open>hsvToRgb\<close> for one channel: scaling by 255 and cutting off.\<close>

lemma out_channel_range:
  assumes "- (1 / 2 ^ 20) \<le> y" "y \<le> 1 + 1 / 2 ^ 20"
  shows "0 \<le> toInt (f64_mul (f64 y) 255) \<and> toInt (f64_mul (f64 y) 255) \<le> 255"
proof -
  have "\<bar>y\<bar> \<le> 1024" using assms by (simp add: abs_le_iff)
  note z = f64_near [OF this]
  have zl: "- (1 / 2 ^ 19) \<le> f64 y" using z(1) assms(1) by simp
  have zu: "f64 y \<le> 1 + 1 / 2 ^ 19" using z(2) assms(2) by simp
  have pl: "- (1 / 2 ^ 10) \<le> f64 y * 255" using zl by simp
  have pu: "f64 y * 255 \<le> 255 + 1 / 2 ^ 10" using zu by simp
  have "\<bar>f64 y * 255\<bar> \<le> 1024" using pl pu by (simp add: abs_le_iff)
  note q = f64_near [OF this]
  have "- 1 < f64 (f64 y * 255)" using q(1) pl by simp
  moreover have "f64 (f64 y * 255) < of_int 255 + 1" using q(2) pu by simp
  ultimately show ?thesis
    unfolding f64_mul_def by (intro toInt_range) simp_all
qed

text \<open>
  \<open>hsvToRgb\<close> on a value and a saturation that are in the unit interval up to a small
  rounding excess.
\<close>

lemma hsvToRgb_valid:
  assumes "0 \<le> v" "v \<le> 1 + 1 / 2 ^ 30" "0 \<le> s" "s \<le> 1 + 1 / 2 ^ 30"
  shows "valid (hsvToRgb h0 s v)"
proof -
  define hn where "hn = (if Mod h0 360 < 0 then f64_add (Mod h0 360) 360 else Mod h0 360)"
  define c where "c = f64_mul v s"
  define f where "f = f64_sub 1 \<bar>f64_sub (Mod (f64_div hn 60) 2) 1\<bar>"
  define x where "x = f64_mul c f"
  define m where "m = f64_sub v c"
  \<comment> \<open>the chroma\<close>
  have vs0: "0 \<le> v * s" using assms(1,3) by simp
  have "v * s \<le> v * (1 + 1 / 2 ^ 30)"
    by (rule mult_left_mono) (use assms in simp_all)
  also have "\<dots> = v + v * (1 / 2 ^ 30)" by (simp add: algebra_simps)
  also have "v * (1 / 2 ^ 30) \<le> 2 * (1 / 2 ^ 30)"
    by (rule mult_right_mono) (use assms in simp_all)
  finally have vs1: "v * s \<le> v + 1 / 2 ^ 29" by simp
  have "\<bar>v * s\<bar> \<le> 1024" using vs0 vs1 assms(2) by (simp add: abs_le_iff)
  note cn = f64_near [OF this]
  have c0: "0 \<le> c" unfolding c_def f64_mul_def by (rule f64_nonneg [OF vs0])
  have c1: "c \<le> v + 1 / 2 ^ 28" using cn(2) vs1 by (simp add: c_def f64_mul_def)
  \<comment> \<open>the hue within its sector\<close>
  have hn0: "0 \<le> hn"
  proof (cases "Mod h0 360 < 0")
    case True
    have "- 360 < Mod h0 360" by (rule Mod_bounds(1)) simp
    then have "0 \<le> Mod h0 360 + 360" by simp
    then show ?thesis using True by (simp add: hn_def f64_add_def f64_nonneg)
  next
    case False
    then show ?thesis by (simp add: hn_def)
  qed
  have "0 \<le> f64_div hn 60" unfolding f64_div_def using hn0 by (intro f64_nonneg) simp
  then have y2: "0 \<le> Mod (f64_div hn 60) 2" "Mod (f64_div hn 60) 2 < 2"
    using Mod_nonneg(2,3) [of "f64_div hn 60" 2] by simp_all
  have "\<bar>Mod (f64_div hn 60) 2 - 1\<bar> < 2 ^ 53" using y2 by (simp add: abs_less_iff)
  then have y3: "- 1 \<le> f64_sub (Mod (f64_div hn 60) 2) 1" "f64_sub (Mod (f64_div hn 60) 2) 1 \<le> 1"
    unfolding f64_sub_def
    using f64_int_ge [of "- 1" "Mod (f64_div hn 60) 2 - 1"]
      f64_int_le [of "Mod (f64_div hn 60) 2 - 1" 1] y2 by simp_all
  then have "0 \<le> 1 - \<bar>f64_sub (Mod (f64_div hn 60) 2) 1\<bar>"
    "1 - \<bar>f64_sub (Mod (f64_div hn 60) 2) 1\<bar> \<le> 1" by (simp_all add: abs_le_iff)
  then have f01: "0 \<le> f" "f \<le> 1"
    unfolding f_def f64_sub_def by (rule f64_unit)+
  \<comment> \<open>the second largest component\<close>
  have cf0: "0 \<le> c * f" using c0 f01 by simp
  have "c * f \<le> c * 1" by (rule mult_left_mono) (use c0 f01 in simp_all)
  then have cf1: "c * f \<le> c" by simp
  have "\<bar>c * f\<bar> \<le> 1024" using cf0 cf1 c1 assms(2) by (simp add: abs_le_iff)
  note xn = f64_near [OF this]
  have x0: "0 \<le> x" unfolding x_def f64_mul_def by (rule f64_nonneg [OF cf0])
  have x1: "x \<le> c + 1 / 2 ^ 43" using xn(2) cf1 by (simp add: x_def f64_mul_def)
  \<comment> \<open>the offset\<close>
  have "\<bar>v - c\<bar> \<le> 1024" using c0 c1 assms(1,2) by (simp add: abs_le_iff)
  note mn = f64_near [OF this]
  have m0: "v - c - 1 / 2 ^ 43 \<le> m" and m1: "m \<le> v - c + 1 / 2 ^ 43"
    using mn by (simp_all add: m_def f64_sub_def)
  \<comment> \<open>the three sums that are scaled\<close>
  have sc: "- (1 / 2 ^ 20) \<le> c + m" "c + m \<le> 1 + 1 / 2 ^ 20"
    using m0 m1 assms(1,2) by simp_all
  have sx: "- (1 / 2 ^ 20) \<le> x + m" "x + m \<le> 1 + 1 / 2 ^ 20"
    using m0 m1 x0 x1 c1 assms(1,2) by simp_all
  have sz: "- (1 / 2 ^ 20) \<le> 0 + m" "0 + m \<le> 1 + 1 / 2 ^ 20"
    using m0 m1 c0 c1 assms(1,2) by simp_all
  note oc = out_channel_range [OF sc, folded f64_add_def]
    and ox = out_channel_range [OF sx, folded f64_add_def]
    and oz = out_channel_range [OF sz, folded f64_add_def]
  show ?thesis
    unfolding hsvToRgb_def Let_def hn_def [symmetric] c_def [symmetric]
      f_def [symmetric] x_def [symmetric] m_def [symmetric]
    using oc ox oz by (simp add: valid_def)
qed

text \<open>A component of a colour as a fraction of 255, rounded.\<close>

lemma fraction_255:
  assumes "0 \<le> k" "k \<le> 255"
  shows "0 \<le> f64_div (toFloat64 k) 255" "f64_div (toFloat64 k) 255 \<le> 1"
    "f64_div (toFloat64 k) 255 = 0 \<or> 1 / 256 \<le> f64_div (toFloat64 k) 255"
proof -
  have tk: "toFloat64 k = of_int k" using assms by (simp add: toFloat64_exact)
  have q: "(0::rat) \<le> of_int k / 255" "(of_int k :: rat) / 255 \<le> 1"
    using assms by simp_all
  from f64_unit [OF q] show "0 \<le> f64_div (toFloat64 k) 255" "f64_div (toFloat64 k) 255 \<le> 1"
    by (simp_all add: f64_div_def tk)
  show "f64_div (toFloat64 k) 255 = 0 \<or> 1 / 256 \<le> f64_div (toFloat64 k) 255"
  proof (cases "k = 0")
    case True
    then show ?thesis by (simp add: f64_div_def toFloat64_def)
  next
    case False
    with assms have "1 \<le> k" by simp
    then have "(1::rat) \<le> of_int k" by simp
    then have "(1::rat) / 255 \<le> of_int k / 255" by (simp add: divide_right_mono)
    moreover have "\<bar>(of_int k :: rat) / 255\<bar> \<le> 1024" using q by simp
    note f64_near(1) [OF this]
    ultimately show ?thesis by (simp add: f64_div_def tk)
  qed
qed

lemma rgbToHsv_sv:
  assumes "valid c" "rgbToHsv c = (hv, s, v)"
  shows "0 \<le> v \<and> v \<le> 1 + 1 / 2 ^ 30 \<and> 0 \<le> s \<and> s \<le> 1 + 1 / 2 ^ 30"
proof -
  define r where "r = f64_div (toFloat64 (R c)) 255"
  define g where "g = f64_div (toFloat64 (G c)) 255"
  define b where "b = f64_div (toFloat64 (B c)) 255"
  define maxv where "maxv = max r (max g b)"
  define minv where "minv = min r (min g b)"
  define d where "d = f64_sub maxv minv"
  have rng: "0 \<le> R c" "R c \<le> 255" "0 \<le> G c" "G c \<le> 255" "0 \<le> B c" "B c \<le> 255"
    using assms(1) by (simp_all add: valid_def)
  note fr = fraction_255 [OF rng(1,2), folded r_def]
    and fg = fraction_255 [OF rng(3,4), folded g_def]
    and fb = fraction_255 [OF rng(5,6), folded b_def]
  have max01: "0 \<le> maxv" "maxv \<le> 1" using fr fg fb by (simp_all add: maxv_def)
  have min0: "0 \<le> minv" "minv \<le> maxv" using fr fg fb by (simp_all add: minv_def maxv_def)
  have maxlow: "maxv = 0 \<or> 1 / 256 \<le> maxv"
    using fr(3) fg(3) fb(3) fr(1) fg(1) fb(1) unfolding maxv_def max_def by auto
  show ?thesis
  proof (cases "maxv = 0")
    case True
    then have "rgbToHsv c = (0, 0, 0)"
      by (simp add: rgbToHsv_def Let_def r_def g_def b_def maxv_def)
    with assms(2) show ?thesis by simp
  next
    case False
    with maxlow max01 have low: "1 / 256 \<le> maxv" and pos: "0 < maxv" by simp_all
    have "fst (snd (rgbToHsv c)) = f64_div d maxv \<and> snd (snd (rgbToHsv c)) = maxv"
      using False
      unfolding rgbToHsv_def Let_def r_def g_def b_def maxv_def minv_def d_def
      by simp
    then have sv: "s = f64_div d maxv" "v = maxv"
      by (simp_all add: assms(2))
    have diff: "0 \<le> maxv - minv" "maxv - minv \<le> maxv" using min0 by simp_all
    have "\<bar>maxv - minv\<bar> \<le> 1024" using diff max01 by simp
    note dn = f64_near [OF this]
    have d0: "0 \<le> d" unfolding d_def f64_sub_def by (rule f64_nonneg [OF diff(1)])
    have d1: "d \<le> maxv + 1 / 2 ^ 43" using dn(2) diff(2) by (simp add: d_def f64_sub_def)
    have q0: "0 \<le> d / maxv" using d0 pos by simp
    have "d / maxv \<le> (maxv + 1 / 2 ^ 43) / maxv"
      using d1 pos by (simp add: divide_right_mono)
    also have "\<dots> = 1 + (1 / 2 ^ 43) / maxv" using pos by (simp add: field_simps)
    also have "(1 / 2 ^ 43) / maxv \<le> (1 / 2 ^ 43) / (1 / 256)"
      by (rule divide_left_mono) (use low pos in simp_all)
    finally have q1: "d / maxv \<le> 1 + 1 / 2 ^ 35" by simp
    have "(1::rat) + 1 / 2 ^ 35 \<le> 1024" by simp
    with q0 q1 have "\<bar>d / maxv\<bar> \<le> 1024" by linarith
    note sn = f64_near [OF this]
    have "0 \<le> s" unfolding sv f64_div_def by (rule f64_nonneg [OF q0])
    moreover have "s \<le> 1 + 1 / 2 ^ 30" using sn(2) q1 by (simp add: sv f64_div_def)
    ultimately show ?thesis using max01 by (simp add: sv)
  qed
qed

lemma rotateHue_valid: "valid c \<Longrightarrow> valid (rotateHue c delta)"
proof -
  assume c: "valid c"
  obtain hv s v where hsv: "rgbToHsv c = (hv, s, v)" by (cases "rgbToHsv c")
  from rgbToHsv_sv [OF c hsv] show ?thesis
    by (simp add: rotateHue_def hsv hsvToRgb_valid)
qed

lemma lerp_valid:
  assumes "valid a" "valid b" "0 \<le> t" "t \<le> 1"
  shows "valid (lerp a b t)"
proof -
  have a: "0 \<le> R a" "R a \<le> 255" "0 \<le> G a" "G a \<le> 255" "0 \<le> B a" "B a \<le> 255"
    using assms(1) by (simp_all add: valid_def)
  have b: "0 \<le> R b" "R b \<le> 255" "0 \<le> G b" "G b \<le> 255" "0 \<le> B b" "B b \<le> 255"
    using assms(2) by (simp_all add: valid_def)
  note red = channel_toInt(5,6) [OF a(1,2) b(1,2) assms(3,4)]
  note green = channel_toInt(5,6) [OF a(3,4) b(3,4) assms(3,4)]
  note blue = channel_toInt(5,6) [OF a(5,6) b(5,6) assms(3,4)]
  show ?thesis
    using red green blue by (simp add: lerp_def valid_def)
qed

text \<open>
  Claim C8. Interpolating between two colours whose components are in the range from 0 to
  255, at a position from 0 to 1, gives a colour whose components are in that range; and so
  does rotating the hue of such a colour by any finite angle. Interpolation moreover keeps
  every channel between the two endpoint values.
\<close>

theorem derived_colours_in_range:
  assumes "valid a" "valid b" "0 \<le> t" "t \<le> 1"
  shows "valid (lerp a b t) \<and> valid (rotateHue a delta)
         \<and> min (R a) (R b) \<le> R (lerp a b t) \<and> R (lerp a b t) \<le> max (R a) (R b)
         \<and> min (G a) (G b) \<le> G (lerp a b t) \<and> G (lerp a b t) \<le> max (G a) (G b)
         \<and> min (B a) (B b) \<le> B (lerp a b t) \<and> B (lerp a b t) \<le> max (B a) (B b)"
proof -
  have a: "0 \<le> R a" "R a \<le> 255" "0 \<le> G a" "G a \<le> 255" "0 \<le> B a" "B a \<le> 255"
    using assms(1) by (simp_all add: valid_def)
  have b: "0 \<le> R b" "R b \<le> 255" "0 \<le> G b" "G b \<le> 255" "0 \<le> B b" "B b \<le> 255"
    using assms(2) by (simp_all add: valid_def)
  note red = channel_toInt(1,2) [OF a(1,2) b(1,2) assms(3,4)]
  note green = channel_toInt(1,2) [OF a(3,4) b(3,4) assms(3,4)]
  note blue = channel_toInt(1,2) [OF a(5,6) b(5,6) assms(3,4)]
  show ?thesis
    using lerp_valid [OF assms] rotateHue_valid [OF assms(1)] red green blue
    by (simp add: lerp_def)
qed

theorem derived_colours_in_range_witness:
  "valid \<lparr>R = 138, G = 43, B = 226\<rparr> \<and> valid \<lparr>R = 0, G = 255, B = 255\<rparr>
   \<and> (0::rat) \<le> 1 / 3 \<and> (1 / 3 :: rat) \<le> 1
   \<and> valid (lerp \<lparr>R = 138, G = 43, B = 226\<rparr> \<lparr>R = 0, G = 255, B = 255\<rparr> (1 / 3))
   \<and> valid (rotateHue \<lparr>R = 138, G = 43, B = 226\<rparr> 90)"
  using derived_colours_in_range
    [of "\<lparr>R = 138, G = 43, B = 226\<rparr>" "\<lparr>R = 0, G = 255, B = 255\<rparr>" "1 / 3" 90]
  by (simp add: valid_def)


section \<open>The banner grid\<close>

lemma SplitNewline_nonempty: "SplitNewline s \<noteq> []"
  by (induction s) (auto split: list.splits)

lemma SplitNewline_only_newlines:
  "\<forall>ch \<in> set s. ch = CHR 0x0A \<Longrightarrow> SplitNewline s = replicate (Suc (length s)) []"
  by (induction s) simp_all




lemma maxLen_start: "k \<le> maxLen k ls"
proof (induction ls arbitrary: k)
  case Nil
  then show ?case by simp
next
  case (Cons l ls)
  have "max k (int (length l)) \<le> maxLen (max k (int (length l))) ls" by (rule Cons.IH)
  then show ?case by (simp add: max_def split: if_splits)
qed

lemma maxLen_ge: "l \<in> set ls \<Longrightarrow> int (length l) \<le> maxLen k ls"
proof (induction ls arbitrary: k)
  case Nil
  then show ?case by simp
next
  case (Cons a ls)
  show ?case
  proof (cases "l = a")
    case True
    have "max k (int (length a)) \<le> maxLen (max k (int (length a))) ls" by (rule maxLen_start)
    then show ?thesis using True by (simp add: max_def split: if_splits)
  next
    case False
    with Cons.prems have "l \<in> set ls" by simp
    then show ?thesis using Cons.IH by simp
  qed
qed

lemma maxLen_cases: "maxLen k ls = k \<or> (\<exists>l \<in> set ls. int (length l) = maxLen k ls)"
proof (induction ls arbitrary: k)
  case Nil
  then show ?case by simp
next
  case (Cons a ls)
  from Cons.IH [of "max k (int (length a))"]
  show ?case by (auto simp: max_def split: if_splits)
qed

lemma maxLen_attained:
  assumes "ls \<noteq> []"
  shows "\<exists>l \<in> set ls. int (length l) = maxLen 0 ls"
proof (cases "maxLen 0 ls = 0")
  case False
  with maxLen_cases [of 0 ls] show ?thesis by simp
next
  case True
  obtain l where l: "l \<in> set ls" using assms by (cases ls) auto
  from maxLen_ge [OF l, of 0] True have "int (length l) = 0" by simp
  with l True show ?thesis by auto
qed

lemma maxLen_0:
  assumes "ls \<noteq> []"
  shows "maxLen 0 ls = Max ((\<lambda>l. int (length l)) ` set ls)"
proof (rule sym, rule Max_eqI)
  show "finite ((\<lambda>l. int (length l)) ` set ls)" by simp
  show "y \<le> maxLen 0 ls" if "y \<in> (\<lambda>l. int (length l)) ` set ls" for y
    using that by (auto simp: maxLen_ge)
  show "maxLen 0 ls \<in> (\<lambda>l. int (length l)) ` set ls"
    using maxLen_attained [OF assms] by force
qed

text \<open>What \<open>rebuildArt\<close> does when it does not panic, and when that is.\<close>

lemma rebuildArt_Some:
  assumes "rebuildArt fig m = Some m'"
  shows "m' = m\<lparr>artLines := SplitNewline (TrimRightNewline
                    (fig (Value (inputs m ! 0)) (fonts m ! nat (fontIndex m)))),
               maxWidth := maxLen 0 (SplitNewline (TrimRightNewline
                    (fig (Value (inputs m ! 0)) (fonts m ! nat (fontIndex m)))))\<rparr>"
  using assms by (simp add: rebuildArt_def Let_def split: if_splits)


lemma rebuildArt_maxWidth:
  assumes "rebuildArt fig m = Some m'"
  shows "artLines m' \<noteq> []" "maxWidth m' = maxLen 0 (artLines m')"
  using rebuildArt_Some [OF assms] by (simp_all add: SplitNewline_nonempty)

text \<open>Padding, and the loop over the columns of a line that is long enough.\<close>

lemma pad_length: "maxW \<le> int (length (pad maxW line))"
  by (simp add: pad_def)

lemma pad_length_eq:
  "int (length line) \<le> maxW \<Longrightarrow> int (length (pad maxW line)) = maxW"
  by (simp add: pad_def)

lemma columns_total:
  "0 \<le> x \<Longrightarrow> maxW \<le> int (length line) \<Longrightarrow> columns maxW md es ee line x \<noteq> None"
proof (induction maxW md es ee line x rule: columns.induct)
  case (1 maxW md effStart effEnd line x)
  show ?case
  proof (cases "x < maxW")
    case False
    then show ?thesis by (subst columns.simps) simp
  next
    case True
    with "1.prems" have inb: "\<not> (x < 0 \<or> int (length line) \<le> x)" by simp
    show ?thesis
    proof (cases "line ! nat x = CHR '' ''")
      case sp: True
      have "columns maxW md effStart effEnd line (x + 1) \<noteq> None"
        using "1.IH"(1) [OF True inb refl sp] "1.prems" by simp
      then show ?thesis using True inb sp by (subst columns.simps) auto
    next
      case nsp: False
      have "columns maxW md effStart effEnd line (x + 1) \<noteq> None"
        using "1.IH"(2) [OF True inb refl nsp refl refl refl] "1.prems" by simp
      then show ?thesis using True inb nsp by (subst columns.simps) (auto simp: Let_def)
    qed
  qed
qed

lemma row_total: "row maxW md es ee line \<noteq> None"
  unfolding row_def by (rule columns_total) (simp_all add: pad_length)

lemma rows_total: "rows maxW md es ee ls \<noteq> None"
  by (induction ls) (auto simp: row_total split: option.splits)




text \<open>
  Claim C10. After \<open>rebuildArt\<close>, \<open>maxWidth\<close> is the greatest byte length of the stored
  lines. So for every stored line the number of spaces that \<open>View\<close> adds is not negative,
  the padded line is exactly \<open>maxWidth\<close> long, every column \<open>x\<close> from 0 below \<open>maxWidth\<close> is
  an index within the padded line, and the loops over the columns and the lines run
  without a panic.
\<close>

theorem rebuildArt_width_safe:
  assumes "rebuildArt fig m = Some m'"
  shows "maxWidth m' = Max ((\<lambda>l. int (length l)) ` set (artLines m'))
         \<and> (\<forall>l \<in> set (artLines m').
               0 \<le> maxWidth m' - int (length l)
               \<and> int (length (pad (maxWidth m') l)) = maxWidth m'
               \<and> (\<forall>x. 0 \<le> x \<and> x < maxWidth m' \<longrightarrow> nat x < length (pad (maxWidth m') l))
               \<and> row (maxWidth m') md es ee l \<noteq> None)
         \<and> rows (maxWidth m') md es ee (artLines m') \<noteq> None"
proof -
  note mw = rebuildArt_maxWidth [OF assms]
  have le: "int (length l) \<le> maxWidth m'" if "l \<in> set (artLines m')" for l
    using that by (simp add: mw(2) maxLen_ge)
  have idx: "nat x < length (pad (maxWidth m') l)"
    if "l \<in> set (artLines m')" "0 \<le> x" "x < maxWidth m'" for l x
    using pad_length_eq [OF le [OF that(1)]] that(2,3) by linarith
  have mx: "maxWidth m' = Max ((\<lambda>l. int (length l)) ` set (artLines m'))"
    using maxLen_0 [OF mw(1)] by (simp add: mw(2))
  have each: "\<forall>l \<in> set (artLines m').
               0 \<le> maxWidth m' - int (length l)
               \<and> int (length (pad (maxWidth m') l)) = maxWidth m'
               \<and> (\<forall>x. 0 \<le> x \<and> x < maxWidth m' \<longrightarrow> nat x < length (pad (maxWidth m') l))
               \<and> row (maxWidth m') md es ee l \<noteq> None"
    using le idx by (simp add: pad_length_eq row_total)
  from mx each rows_total [of "maxWidth m'" md es ee "artLines m'"] show ?thesis by blast
qed

theorem rebuildArt_width_safe_witness:
  "rebuildArt raggedFigure sampleModel
     = Some (sampleModel\<lparr>artLines := [''ab'', ''c''], maxWidth := 2\<rparr>)
   \<and> int (length (pad 2 ''c'')) = 2
   \<and> row 2 modeGlyph \<lparr>R = 0, G = 0, B = 0\<rparr> \<lparr>R = 255, G = 255, B = 255\<rparr> ''c'' \<noteq> None"
proof -
  have r: "rebuildArt raggedFigure sampleModel
             = Some (sampleModel\<lparr>artLines := [''ab'', ''c''], maxWidth := 2\<rparr>)"
    by (simp add: rebuildArt_def sampleModel_def raggedFigure_def TrimRightNewline_def
        Focus_def newTextInput_def)
  from rebuildArt_width_safe [OF r, of modeGlyph "\<lparr>R = 0, G = 0, B = 0\<rparr>"
      "\<lparr>R = 255, G = 255, B = 255\<rparr>"]
  show ?thesis using r by simp
qed


end
